theory Spec2Isabelle
  imports Main "HOL-Library.AList"
begin

section \<open>ROS package identification: the data model\<close>

text \<open>
  A shallow embedding of \<^verbatim>\<open>colcon_ros/package_identification/ros.py\<close>: the
  identification extension \<^verbatim>\<open>RosPackageIdentification\<close> with its two entry points
  \<^verbatim>\<open>identify\<close> and \<^verbatim>\<open>augment_packages\<close>, and the module-level helpers
  \<^verbatim>\<open>get_package_with_build_type\<close>, \<^verbatim>\<open>_get_package\<close>, \<^verbatim>\<open>_get_build_type\<close> and
  \<^verbatim>\<open>_create_metadata\<close>. A leading underscore is not an Isabelle identifier, so
  the three private helpers are \<open>get_package\<close>, \<open>get_build_type\<close> and
  \<open>create_metadata\<close> here.
\<close>

type_synonym path = string

subsection \<open>The parsed manifest (the \<^verbatim>\<open>catkin_pkg\<close> package object)\<close>

text \<open>
  A manifest dependency: its name, its condition expression, the tri-state
  \<^verbatim>\<open>evaluated_condition\<close> (\<open>None\<close> until the conditions have been evaluated) and
  the five optional version bounds.
\<close>

record dependency =
  dep_name :: string
  dep_condition :: "string option"
  dep_evaluated_condition :: "bool option"
  version_lte :: "string option"
  version_lt :: "string option"
  version_gte :: "string option"
  version_gt :: "string option"
  version_eq :: "string option"

text \<open>A group-dependency declaration or a group membership: a group name with a condition.\<close>

record group =
  group_name :: string
  group_condition :: "string option"
  group_evaluated_condition :: "bool option"

text \<open>
  What the accessor \<^verbatim>\<open>pkg.get_build_type()\<close> does: it returns the declared build
  type, or raises \<^verbatim>\<open>InvalidPackage\<close> when the manifest declares more than one.
\<close>

datatype build_type_result = BuildType "string option" | RaisesMultipleBuildTypes

record package =
  pkg_name :: string
  pkg_version :: string
  pkg_get_build_type :: build_type_result
  build_depends :: "dependency list"
  buildtool_depends :: "dependency list"
  build_export_depends :: "dependency list"
  buildtool_export_depends :: "dependency list"
  exec_depends :: "dependency list"
  test_depends :: "dependency list"
  group_depends :: "group list"
  member_of_groups :: "group list"

subsection \<open>The collaborators: file system, manifest parser, environment\<close>

datatype fs_entry = Missing | File | Directory

text \<open>
  \<^verbatim>\<open>parse_package(path)\<close> yields a package or raises one of the two failure kinds
  of the parser's contract.
\<close>

datatype parse_result = Parsed package | RaisesInvalidPackage | RaisesAssertionError

text \<open>
  Everything \<^verbatim>\<open>ros.py\<close> reads from outside and that does not change during a
  scan: the entry \<open>fs w p n\<close> named \<open>n\<close> directly in directory \<open>p\<close>, the parser's
  \<^verbatim>\<open>package_exists_at\<close> and \<^verbatim>\<open>parse_package\<close>, and the value of a condition
  expression in the process environment \<^verbatim>\<open>os.environ\<close>.
\<close>

record world =
  fs :: "path \<Rightarrow> string \<Rightarrow> fs_entry"
  package_exists_at :: "path \<Rightarrow> bool"
  parse_package :: "path \<Rightarrow> parse_result"
  evaluate_condition :: "string option \<Rightarrow> bool"

definition path_exists :: "world \<Rightarrow> path \<Rightarrow> string \<Rightarrow> bool" where
  "path_exists w p n = (fs w p n \<noteq> Missing)"

definition path_is_file :: "world \<Rightarrow> path \<Rightarrow> string \<Rightarrow> bool" where
  "path_is_file w p n = (fs w p n = File)"

subsection \<open>Descriptors\<close>

text \<open>
  A \<^verbatim>\<open>DependencyDescriptor\<close> is a string (the name) carrying a metadata
  dictionary; it compares and hashes as its name. A Python set of them holds at most one
  element per name, so it is a partial map from the name to the metadata of the element
  held, and \<^verbatim>\<open>set.add\<close> keeps the element already there.
\<close>

type_synonym metadata = "string \<rightharpoonup> string"

type_synonym dependency_set = "string \<rightharpoonup> metadata"

definition DependencyDescriptor :: "string \<Rightarrow> metadata \<Rightarrow> string \<times> metadata" where
  "DependencyDescriptor n md = (n, md)"

definition set_add :: "string \<times> metadata \<Rightarrow> dependency_set \<Rightarrow> dependency_set" where
  "set_add d s = (case s (fst d) of None \<Rightarrow> s(fst d \<mapsto> snd d) | Some old \<Rightarrow> s)"

text \<open>
  The values \<^verbatim>\<open>identify\<close> stores in \<^verbatim>\<open>desc.metadata\<close>: the version string, and the
  closure \<^verbatim>\<open>getter\<close>, which holds the descriptor's path and reads
  \<^verbatim>\<open>path / 'setup.py'\<close> on each call.
\<close>

datatype metadata_value = Str string | SetupOptionsGetter path

text \<open>
  The package descriptor. \<^verbatim>\<open>desc.dependencies\<close> is a \<^verbatim>\<open>defaultdict(set)\<close>: every
  category has a set, empty until something is added.
\<close>

record package_descriptor =
  desc_path :: path
  desc_type :: "string option"
  desc_name :: "string option"
  desc_dependencies :: "string \<Rightarrow> dependency_set"
  desc_metadata :: "string \<rightharpoonup> metadata_value"

subsection \<open>Exceptions, the cache and the trace of effects\<close>

datatype exception = IgnoreLocationException | AssertionError | KeyError string

datatype outcome = Returned | Raised exception

datatype level = ERROR | WARNING

datatype event =
    Called_package_exists_at path
  | Called_parse_package path
  | Called_get_build_type string
  | Logged level string

text \<open>
  The module state: the global \<^verbatim>\<open>_cached_packages\<close>, and the trace of the calls
  made to the parser and of the messages handed to the logger, oldest first.
\<close>

record state =
  cached_packages :: "path \<rightharpoonup> (package option \<times> string option)"
  trace :: "event list"

definition emit :: "event \<Rightarrow> state \<Rightarrow> state" where
  "emit e s = s\<lparr>trace := trace s @ [e]\<rparr>"

section \<open>The loader, the classifier and the cache\<close>

text \<open>
  Modelled from the spec: \<^verbatim>\<open>Package.evaluate_conditions\<close> of the external parser is
  not part of the repository. It evaluates every conditional expression of the package
  against the environment, so that every \<^verbatim>\<open>evaluated_condition\<close> is non-null
  afterwards.
\<close>

definition evaluate_dependency :: "world \<Rightarrow> dependency \<Rightarrow> dependency" where
  "evaluate_dependency w d =
     d\<lparr>dep_evaluated_condition := Some (evaluate_condition w (dep_condition d))\<rparr>"

definition evaluate_group :: "world \<Rightarrow> group \<Rightarrow> group" where
  "evaluate_group w g =
     g\<lparr>group_evaluated_condition := Some (evaluate_condition w (group_condition g))\<rparr>"

definition evaluate_conditions :: "world \<Rightarrow> package \<Rightarrow> package" where
  "evaluate_conditions w pkg =
     pkg\<lparr>build_depends := map (evaluate_dependency w) (build_depends pkg),
         buildtool_depends := map (evaluate_dependency w) (buildtool_depends pkg),
         build_export_depends := map (evaluate_dependency w) (build_export_depends pkg),
         buildtool_export_depends := map (evaluate_dependency w) (buildtool_export_depends pkg),
         exec_depends := map (evaluate_dependency w) (exec_depends pkg),
         test_depends := map (evaluate_dependency w) (test_depends pkg),
         group_depends := map (evaluate_group w) (group_depends pkg),
         member_of_groups := map (evaluate_group w) (member_of_groups pkg)\<rparr>"

text \<open>
  \<^verbatim>\<open>_get_package\<close>: no manifest gives \<open>None\<close>; both failure kinds of the parser
  are caught and give \<open>None\<close>; a parsed package has its conditions evaluated.
\<close>

definition get_package :: "world \<Rightarrow> path \<Rightarrow> state \<Rightarrow> package option \<times> state" where
  "get_package w p s =
     (let s1 = emit (Called_package_exists_at p) s in
      if \<not> package_exists_at w p then (None, s1)
      else
        let s2 = emit (Called_parse_package p) s1 in
        case parse_package w p of
          Parsed pkg \<Rightarrow> (Some (evaluate_conditions w pkg), s2)
        | RaisesInvalidPackage \<Rightarrow> (None, s2)
        | RaisesAssertionError \<Rightarrow> (None, s2))"

text \<open>
  \<^verbatim>\<open>_get_build_type\<close>. In the handler of \<^verbatim>\<open>InvalidPackage\<close> the argument of
  \<^verbatim>\<open>logger.warning\<close> is built first, by \<^verbatim>\<open>format_map(locals())\<close> on a template
  that names \<^verbatim>\<open>{path}\<close>. The function's locals are \<^verbatim>\<open>pkg\<close> and
  \<^verbatim>\<open>InvalidPackage\<close> only, so the lookup of \<^verbatim>\<open>path\<close> raises \<^verbatim>\<open>KeyError\<close>:
  nothing is logged and nothing is returned.
\<close>

definition get_build_type :: "package \<Rightarrow> state \<Rightarrow> (exception + string option) \<times> state" where
  "get_build_type pkg s =
     (let s1 = emit (Called_get_build_type (pkg_name pkg)) s in
      case pkg_get_build_type pkg of
        BuildType bt \<Rightarrow> (Inr bt, s1)
      | RaisesMultipleBuildTypes \<Rightarrow> (Inl (KeyError ''path''), s1))"

text \<open>
  \<^verbatim>\<open>get_package_with_build_type\<close>: on a miss the pair is computed and stored; an
  exception on the way leaves the cache as it was.
\<close>

definition get_package_with_build_type ::
  "world \<Rightarrow> path \<Rightarrow> state \<Rightarrow> (exception + package option \<times> string option) \<times> state" where
  "get_package_with_build_type w p s =
     (case cached_packages s p of
        Some entry \<Rightarrow> (Inr entry, s)
      | None \<Rightarrow>
          (case get_package w p s of
             (None, s1) \<Rightarrow>
               (Inr (None, None), s1\<lparr>cached_packages := (cached_packages s1)(p \<mapsto> (None, None))\<rparr>)
           | (Some pkg, s1) \<Rightarrow>
               (case get_build_type pkg s1 of
                  (Inl e, s2) \<Rightarrow> (Inl e, s2)
                | (Inr build_type, s2) \<Rightarrow>
                    (Inr (Some pkg, build_type),
                     s2\<lparr>cached_packages := (cached_packages s2)(p \<mapsto> (Some pkg, build_type))\<rparr>))))"

section \<open>Version metadata\<close>

definition attributes :: "string list" where
  "attributes = [''version_lte'', ''version_lt'', ''version_gte'', ''version_gt'', ''version_eq'']"

text \<open>\<^verbatim>\<open>getattr(dependency, attr, None)\<close>, for the five attributes it is called with.\<close>

definition getattr :: "dependency \<Rightarrow> string \<Rightarrow> string option" where
  "getattr d attr =
     (if attr = ''version_lte'' then version_lte d
      else if attr = ''version_lt'' then version_lt d
      else if attr = ''version_gte'' then version_gte d
      else if attr = ''version_gt'' then version_gt d
      else if attr = ''version_eq'' then version_eq d
      else None)"

definition create_metadata :: "dependency \<Rightarrow> metadata" where
  "create_metadata d =
     fold (\<lambda>attr md. case getattr d attr of None \<Rightarrow> md | Some v \<Rightarrow> md(attr \<mapsto> v))
       attributes Map.empty"

section \<open>identify\<close>

text \<open>
  One dependency loop of \<^verbatim>\<open>identify\<close> (lines 84 to 104, three times the same
  body): the assertion, then the conditional \<^verbatim>\<open>add\<close>. A failed assertion leaves
  the set as the earlier iterations made it.
\<close>

fun add_depends :: "dependency list \<Rightarrow> dependency_set \<Rightarrow> outcome \<times> dependency_set" where
  "add_depends [] deps = (Returned, deps)"
| "add_depends (d # ds) deps =
     (case dep_evaluated_condition d of
        None \<Rightarrow> (Raised AssertionError, deps)
      | Some c \<Rightarrow>
          add_depends ds
            (if c then set_add (DependencyDescriptor (dep_name d) (create_metadata d)) deps
             else deps))"

definition add_category ::
  "string \<Rightarrow> dependency list \<Rightarrow> package_descriptor \<Rightarrow> outcome \<times> package_descriptor" where
  "add_category cat ds desc =
     (case add_depends ds (desc_dependencies desc cat) of
        (r, deps) \<Rightarrow> (r, desc\<lparr>desc_dependencies := (desc_dependencies desc)(cat := deps)\<rparr>))"

definition quoted :: "string \<Rightarrow> string" where
  "quoted x = [CHR 0x27] @ x @ [CHR 0x27]"

definition no_setup_py_message :: "path \<Rightarrow> string \<Rightarrow> string" where
  "no_setup_py_message p build_type =
     ''ROS package '' @ quoted p @ '' with build type '' @ quoted build_type @
     '' has no '' @ quoted ''setup.py'' @ '' file''"

text \<open>
  The part of \<^verbatim>\<open>identify\<close> after the checks (lines 74 to 113): type, name, version,
  the three loops in their order, and the getter for \<^verbatim>\<open>ament_python\<close>.
\<close>

definition populate ::
  "package \<Rightarrow> string \<Rightarrow> package_descriptor \<Rightarrow> outcome \<times> package_descriptor" where
  "populate pkg build_type desc =
     (let desc1 = desc\<lparr>desc_type := Some (''ros.'' @ build_type)\<rparr>;
          desc2 = (if desc_name desc1 = None then desc1\<lparr>desc_name := Some (pkg_name pkg)\<rparr>
                   else desc1);
          desc3 = desc2\<lparr>desc_metadata := (desc_metadata desc2)(''version'' \<mapsto> Str (pkg_version pkg))\<rparr>
      in
      case add_category ''build'' (build_depends pkg @ buildtool_depends pkg) desc3 of
        (Raised e, desc4) \<Rightarrow> (Raised e, desc4)
      | (Returned, desc4) \<Rightarrow>
      (case add_category ''run''
              (build_export_depends pkg @ buildtool_export_depends pkg @ exec_depends pkg) desc4 of
        (Raised e, desc5) \<Rightarrow> (Raised e, desc5)
      | (Returned, desc5) \<Rightarrow>
      (case add_category ''test'' (test_depends pkg) desc5 of
        (Raised e, desc6) \<Rightarrow> (Raised e, desc6)
      | (Returned, desc6) \<Rightarrow>
          if build_type = ''ament_python''
          then (Returned,
                desc6\<lparr>desc_metadata := (desc_metadata desc6)
                   (''get_python_setup_options'' \<mapsto> SetupOptionsGetter (desc_path desc6))\<rparr>)
          else (Returned, desc6))))"

text \<open>
  \<^verbatim>\<open>identify\<close>. The result is the outcome of the call, the descriptor as the call
  leaves it (it is mutated in place, also when the call raises) and the module state.
  \<^verbatim>\<open>not pkg or not build_type\<close> holds for an absent package, an absent build type
  and the empty build type.
\<close>

definition identify ::
  "world \<Rightarrow> package_descriptor \<Rightarrow> state \<Rightarrow> outcome \<times> package_descriptor \<times> state" where
  "identify w desc s =
     (if desc_type desc \<noteq> None \<and> desc_type desc \<noteq> Some ''ros'' then (Returned, desc, s)
      else if path_exists w (desc_path desc) ''CATKIN_IGNORE''
        then (Raised IgnoreLocationException, desc, s)
      else if path_exists w (desc_path desc) ''AMENT_IGNORE''
        then (Raised IgnoreLocationException, desc, s)
      else
        case get_package_with_build_type w (desc_path desc) s of
          (Inl e, s1) \<Rightarrow> (Raised e, desc, s1)
        | (Inr (pkg, build_type), s1) \<Rightarrow>
            (case (pkg, build_type) of
               (Some p, Some bt) \<Rightarrow>
                 if bt = [] then
                   (if path_exists w (desc_path desc) ''manifest.xml''
                    then (Raised IgnoreLocationException, desc, s1)
                    else (Returned, desc, s1))
                 else if bt = ''ament_python'' \<and> \<not> path_is_file w (desc_path desc) ''setup.py''
                 then (Raised IgnoreLocationException, desc,
                       emit (Logged ERROR (no_setup_py_message (desc_path desc) bt)) s1)
                 else (case populate p bt desc of (r, desc') \<Rightarrow> (r, desc', s1))
             | _ \<Rightarrow>
                 (if path_exists w (desc_path desc) ''manifest.xml''
                  then (Raised IgnoreLocationException, desc, s1)
                  else (Returned, desc, s1))))"

section \<open>augment_packages\<close>

text \<open>
  The dictionary \<^verbatim>\<open>pkgs\<close> maps package objects to descriptors. Package objects
  compare by identity, and each cache entry holds the object that its own
  \<^verbatim>\<open>parse_package\<close> call created, so the identity of a cached package is its cache
  key. An item is the key, the package and the descriptor it refers to, as the position of
  that descriptor in the batch. \<open>AList.update\<close> is the dictionary assignment: a new key
  goes to the end, a key already there keeps its place and takes the new value.
\<close>

type_synonym pkgs = "(path \<times> package \<times> nat) list"

fun collect_pkgs ::
  "(path \<rightharpoonup> package option \<times> string option) \<Rightarrow> package_descriptor list \<Rightarrow> nat \<Rightarrow> pkgs \<Rightarrow> pkgs" where
  "collect_pkgs cache [] i pkgs = pkgs"
| "collect_pkgs cache (desc # descs) i pkgs =
     (case cache (desc_path desc) of
        None \<Rightarrow> collect_pkgs cache descs (Suc i) pkgs
      | Some (None, build_type) \<Rightarrow> collect_pkgs cache descs (Suc i) pkgs
      | Some (Some pkg, build_type) \<Rightarrow>
          collect_pkgs cache descs (Suc i) (AList.update (desc_path desc) (pkg, i) pkgs))"

text \<open>
  Modelled from the spec: \<^verbatim>\<open>GroupDependency.extract_group_members\<close> of the external
  parser is not part of the repository. The members of a group are the names of those
  packages handed to the call that match the group's name through a membership whose
  evaluated condition is true. \<^verbatim>\<open>members\<close> is a set of names; here it is the list of
  them without repetition, and nothing below depends on its order.
\<close>

definition is_member_of :: "group \<Rightarrow> package \<Rightarrow> bool" where
  "is_member_of g pkg =
     (\<exists>m \<in> set (member_of_groups pkg).
        group_name m = group_name g \<and> group_evaluated_condition m = Some True)"

definition extract_group_members :: "group \<Rightarrow> package list \<Rightarrow> string list" where
  "extract_group_members g packages = remdups (map pkg_name (filter (is_member_of g) packages))"

definition add_member :: "string \<Rightarrow> package_descriptor \<Rightarrow> package_descriptor" where
  "add_member n desc =
     (let desc1 = desc\<lparr>desc_dependencies := (desc_dependencies desc)
                    (''build'' := set_add (DependencyDescriptor n Map.empty)
                                    (desc_dependencies desc ''build''))\<rparr>
      in desc1\<lparr>desc_dependencies := (desc_dependencies desc1)
                    (''run'' := set_add (DependencyDescriptor n Map.empty)
                                  (desc_dependencies desc1 ''run''))\<rparr>)"

fun add_group_depends ::
  "group list \<Rightarrow> package list \<Rightarrow> package_descriptor \<Rightarrow> outcome \<times> package_descriptor" where
  "add_group_depends [] packages desc = (Returned, desc)"
| "add_group_depends (g # gs) packages desc =
     (case group_evaluated_condition g of
        None \<Rightarrow> (Raised AssertionError, desc)
      | Some c \<Rightarrow>
          if \<not> c then add_group_depends gs packages desc
          else add_group_depends gs packages
                 (fold add_member (extract_group_members g packages) desc))"

fun resolve_groups ::
  "pkgs \<Rightarrow> package list \<Rightarrow> package_descriptor list \<Rightarrow> outcome \<times> package_descriptor list" where
  "resolve_groups [] packages descs = (Returned, descs)"
| "resolve_groups ((p, pkg, i) # items) packages descs =
     (case add_group_depends (group_depends pkg) packages (descs ! i) of
        (Raised e, desc') \<Rightarrow> (Raised e, descs[i := desc'])
      | (Returned, desc') \<Rightarrow> resolve_groups items packages (descs[i := desc']))"

text \<open>
  \<^verbatim>\<open>augment_packages\<close>: the batch is the list of its descriptors, mutated in place;
  the cache is read and not written.
\<close>

definition augment_packages ::
  "package_descriptor list \<Rightarrow> state \<Rightarrow> outcome \<times> package_descriptor list \<times> state" where
  "augment_packages descs s =
     (let pkgs = collect_pkgs (cached_packages s) descs 0 [] in
      case resolve_groups pkgs (map (\<lambda>item. fst (snd item)) pkgs) descs of
        (r, descs') \<Rightarrow> (r, descs', s))"

text \<open>
  Two readings of the loops above, used to state what they compute: the packages that are
  keys of \<^verbatim>\<open>pkgs\<close> for a batch, and the names that the second loop resolves for
  one package, over its group dependencies with a true evaluated condition.
\<close>

definition batch_packages :: "state \<Rightarrow> package_descriptor list \<Rightarrow> package list" where
  "batch_packages s descs =
     map (\<lambda>item. fst (snd item)) (collect_pkgs (cached_packages s) descs 0 [])"

definition resolved_members :: "package \<Rightarrow> package list \<Rightarrow> string list" where
  "resolved_members pkg packages =
     concat (map (\<lambda>g. extract_group_members g packages)
               (filter (\<lambda>g. group_evaluated_condition g = Some True) (group_depends pkg)))"

section \<open>Scans\<close>

text \<open>
  The surrounding scanner owns the descriptors and calls into the extension: \<open>Identify i\<close>
  is \<^verbatim>\<open>identify\<close> on descriptor \<open>i\<close>, \<open>Augment is\<close> is \<^verbatim>\<open>augment_packages\<close> on the
  batch of the descriptors numbered \<open>is\<close>. A raised exception ends the call and
  not the scan; what the call had mutated stays mutated.
\<close>

datatype call = Identify nat | Augment "nat list"

definition scatter ::
  "nat list \<Rightarrow> package_descriptor list \<Rightarrow> package_descriptor list \<Rightarrow> package_descriptor list" where
  "scatter idx batch descs = fold (\<lambda>(i, d) ds. ds[i := d]) (zip idx batch) descs"

fun step :: "world \<Rightarrow> call \<Rightarrow> package_descriptor list \<times> state \<Rightarrow> package_descriptor list \<times> state" where
  "step w (Identify i) (descs, s) =
     (if i < length descs
      then (case identify w (descs ! i) s of (r, desc', s') \<Rightarrow> (descs[i := desc'], s'))
      else (descs, s))"
| "step w (Augment batch) (descs, s) =
     (let idx = remdups (filter (\<lambda>i. i < length descs) batch) in
      case augment_packages (map (\<lambda>i. descs ! i) idx) s of
        (r, batch', s') \<Rightarrow> (scatter idx batch' descs, s'))"

definition run :: "world \<Rightarrow> call list \<Rightarrow> package_descriptor list \<times> state \<Rightarrow> package_descriptor list \<times> state" where
  "run w calls sys = fold (step w) calls sys"

text \<open>
  One descriptor against a later version of it: every dependency of every category is
  still there, with the metadata it had.
\<close>

definition grows :: "package_descriptor \<Rightarrow> package_descriptor \<Rightarrow> bool" where
  "grows d d' = (\<forall>cat. desc_dependencies d cat \<subseteq>\<^sub>m desc_dependencies d' cat)"

section \<open>The cache invariant\<close>

definition initial_state :: state where
  "initial_state = \<lparr>cached_packages = Map.empty, trace = []\<rparr>"

text \<open>What a first lookup of a path yields: the pair, or the exception that escapes.\<close>

definition load :: "world \<Rightarrow> path \<Rightarrow> exception + package option \<times> string option" where
  "load w p = fst (get_package_with_build_type w p initial_state)"

text \<open>
  Every entry of the cache is what a first lookup of its path yields. The module starts
  with the empty cache and only \<^verbatim>\<open>get_package_with_build_type\<close> writes to it, so
  this holds throughout a scan.
\<close>

definition cache_ok :: "world \<Rightarrow> state \<Rightarrow> bool" where
  "cache_ok w s = (\<forall>p entry. cached_packages s p = Some entry \<longrightarrow> load w p = Inr entry)"

text \<open>The dependency lists that \<^verbatim>\<open>identify\<close> reads for a category.\<close>

definition category_depends :: "package \<Rightarrow> string \<Rightarrow> dependency list" where
  "category_depends pkg cat =
     (if cat = ''build'' then build_depends pkg @ buildtool_depends pkg
      else if cat = ''run''
        then build_export_depends pkg @ buildtool_export_depends pkg @ exec_depends pkg
      else if cat = ''test'' then test_depends pkg
      else [])"

definition enabled_names :: "dependency list \<Rightarrow> string set" where
  "enabled_names ds = {dep_name d | d. d \<in> set ds \<and> dep_evaluated_condition d = Some True}"

section \<open>A workspace\<close>

text \<open>
  A concrete scan, used to run the definitions: the environment has
  \<^verbatim>\<open>ROS_VERSION=2\<close>; package \<open>a\<close> is built with CMake, needs \<open>foo\<close> at version 1.2
  or later to build, would need \<open>bar\<close> to run under ROS 1 only, and depends on the group
  \<open>drivers\<close>; package \<open>b\<close> is a Python package and a member of that group.
\<close>

definition new_descriptor :: "path \<Rightarrow> package_descriptor" where
  "new_descriptor p =
     \<lparr>desc_path = p, desc_type = None, desc_name = None,
      desc_dependencies = (\<lambda>cat. Map.empty), desc_metadata = Map.empty\<rparr>"

definition cmake_descriptor :: "path \<Rightarrow> package_descriptor" where
  "cmake_descriptor p = (new_descriptor p)\<lparr>desc_type := Some ''cmake''\<rparr>"

definition named_descriptor :: "path \<Rightarrow> string \<Rightarrow> package_descriptor" where
  "named_descriptor p n = (new_descriptor p)\<lparr>desc_name := Some n\<rparr>"

definition depend :: "string \<Rightarrow> string option \<Rightarrow> dependency" where
  "depend n c =
     \<lparr>dep_name = n, dep_condition = c, dep_evaluated_condition = None,
      version_lte = None, version_lt = None, version_gte = None, version_gt = None,
      version_eq = None\<rparr>"

definition drivers :: group where
  "drivers = \<lparr>group_name = ''drivers'', group_condition = None, group_evaluated_condition = None\<rparr>"

definition manifest_a :: package where
  "manifest_a =
     \<lparr>pkg_name = ''a'', pkg_version = ''0.1.0'',
      pkg_get_build_type = BuildType (Some ''ament_cmake''),
      build_depends = [(depend ''foo'' None)\<lparr>version_gte := Some ''1.2''\<rparr>],
      buildtool_depends = [], build_export_depends = [], buildtool_export_depends = [],
      exec_depends = [depend ''bar'' (Some ''$ROS_VERSION == 1'')],
      test_depends = [], group_depends = [drivers], member_of_groups = []\<rparr>"

definition manifest_b :: package where
  "manifest_b =
     \<lparr>pkg_name = ''b'', pkg_version = ''2.0.0'',
      pkg_get_build_type = BuildType (Some ''ament_python''),
      build_depends = [], buildtool_depends = [], build_export_depends = [],
      buildtool_export_depends = [], exec_depends = [],
      test_depends = [depend ''pytest'' None], group_depends = [], member_of_groups = [drivers]\<rparr>"

definition manifest_two :: package where
  "manifest_two =
     \<lparr>pkg_name = ''two'', pkg_version = ''1.0.0'',
      pkg_get_build_type = RaisesMultipleBuildTypes,
      build_depends = [], buildtool_depends = [], build_export_depends = [],
      buildtool_export_depends = [], exec_depends = [],
      test_depends = [], group_depends = [], member_of_groups = []\<rparr>"

text \<open>
  The directories: \<open>/ws/a\<close> and \<open>/ws/b\<close> hold the two packages; \<open>/ws/c\<close> and
  \<open>/ws/ignored\<close> hold copies of \<open>b\<close>'s manifest without a \<^verbatim>\<open>setup.py\<close>, the
  second with an ignore marker; \<open>/ws/two\<close> declares two build types; the manifest in
  \<open>/ws/broken\<close> does not parse; \<open>/ws/docs\<close> has no manifest.
\<close>

definition workspace :: world where
  "workspace =
     \<lparr>fs = (\<lambda>p n. if p = ''/ws/b'' \<and> n = ''setup.py'' then File
                    else if p = ''/ws/ignored'' \<and> n = ''CATKIN_IGNORE'' then File
                    else Missing),
      package_exists_at = (\<lambda>p. p = ''/ws/a'' \<or> p = ''/ws/b'' \<or> p = ''/ws/c'' \<or>
                                p = ''/ws/ignored'' \<or> p = ''/ws/two'' \<or> p = ''/ws/broken''),
      parse_package = (\<lambda>p. if p = ''/ws/a'' then Parsed manifest_a
                            else if p = ''/ws/b'' \<or> p = ''/ws/c'' \<or> p = ''/ws/ignored''
                              then Parsed manifest_b
                            else if p = ''/ws/two'' then Parsed manifest_two
                            else RaisesInvalidPackage),
      evaluate_condition = (\<lambda>c. c = None \<or> c = Some ''$ROS_VERSION == 2'')\<rparr>"

text \<open>
  The scan of \<open>/ws/a\<close> and then \<open>/ws/b\<close>: each is the descriptor with the module
  state as \<^verbatim>\<open>identify\<close> leaves them.
\<close>

definition identified_a :: "package_descriptor \<times> state" where
  "identified_a = snd (identify workspace (new_descriptor ''/ws/a'') initial_state)"

definition identified_b :: "package_descriptor \<times> state" where
  "identified_b = snd (identify workspace (new_descriptor ''/ws/b'') (snd identified_a))"

text \<open>A second descriptor for the directory \<open>/ws/a\<close>, under another name.\<close>

definition twin_a :: package_descriptor where
  "twin_a = named_descriptor ''/ws/a'' ''twin''"

text \<open>
  A descriptor for \<open>/ws/a\<close> that comes with a build dependency on \<open>foo\<close>, pinned to
  version 1.0, and the calls of a whole scan of two descriptors.
\<close>

definition pinned_descriptor :: package_descriptor where
  "pinned_descriptor =
     (new_descriptor ''/ws/a'')\<lparr>desc_dependencies :=
        (\<lambda>cat. Map.empty)(''build'' := [''foo'' \<mapsto> [''version_eq'' \<mapsto> ''1.0'']])\<rparr>"

definition whole_scan :: "call list" where
  "whole_scan = [Identify 0, Identify 1, Augment [0, 1]]"

section \<open>Dependency sets and the dependency loops\<close>

lemma set_add_le: "s \<subseteq>\<^sub>m set_add d s"
  by (auto simp: set_add_def map_le_def split: option.splits)

lemma dom_set_add: "dom (set_add d s) = insert (fst d) (dom s)"
  by (auto simp: set_add_def split: option.splits)

lemma set_add_new:
  "set_add d s n = Some md \<Longrightarrow> s n = None \<Longrightarrow> n = fst d \<and> md = snd d"
  by (auto simp: set_add_def split: option.splits if_splits)

lemma add_depends_le: "deps \<subseteq>\<^sub>m snd (add_depends ds deps)"
proof (induction ds arbitrary: deps)
  case Nil
  show ?case by simp
next
  case (Cons d ds)
  show ?case
  proof (cases "dep_evaluated_condition d")
    case None
    then show ?thesis by simp
  next
    case (Some c)
    have "deps \<subseteq>\<^sub>m (if c then set_add (DependencyDescriptor (dep_name d) (create_metadata d)) deps else deps)"
      by (simp add: set_add_le)
    then show ?thesis
      using Some Cons.IH map_le_trans by fastforce
  qed
qed

lemma add_depends_new:
  "snd (add_depends ds deps) n = Some md \<Longrightarrow> deps n = None \<Longrightarrow>
   \<exists>d \<in> set ds. dep_name d = n \<and> dep_evaluated_condition d = Some True \<and> md = create_metadata d"
proof (induction ds arbitrary: deps)
  case Nil
  then show ?case by simp
next
  case (Cons d ds)
  show ?case
  proof (cases "dep_evaluated_condition d")
    case None
    with Cons.prems show ?thesis by simp
  next
    case (Some c)
    let ?deps' = "if c then set_add (DependencyDescriptor (dep_name d) (create_metadata d)) deps else deps"
    from Some Cons.prems have res: "snd (add_depends ds ?deps') n = Some md" by simp
    show ?thesis
    proof (cases "?deps' n")
      case None
      from Cons.IH [OF res None] show ?thesis by auto
    next
      case (Some md')
      have "?deps' \<subseteq>\<^sub>m snd (add_depends ds ?deps')" by (rule add_depends_le)
      with Some res have eq: "md' = md" by (auto simp: map_le_def dom_def)
      from Some Cons.prems(2) have c by (auto split: if_splits)
      with Some Cons.prems(2) eq \<open>dep_evaluated_condition d = Some c\<close>
      show ?thesis by (auto simp: DependencyDescriptor_def dest!: set_add_new)
    qed
  qed
qed

lemma add_depends_evaluated:
  "\<forall>d \<in> set ds. dep_evaluated_condition d \<noteq> None \<Longrightarrow>
   fst (add_depends ds deps) = Returned \<and>
   dom (snd (add_depends ds deps)) = dom deps \<union> enabled_names ds"
proof (induction ds arbitrary: deps)
  case Nil
  show ?case by (simp add: enabled_names_def)
next
  case (Cons d ds)
  then obtain c where c: "dep_evaluated_condition d = Some c" by auto
  from Cons have IH: "\<And>deps. fst (add_depends ds deps) = Returned \<and>
   dom (snd (add_depends ds deps)) = dom deps \<union> enabled_names ds" by simp
  have en: "enabled_names (d # ds) = (if c then {dep_name d} else {}) \<union> enabled_names ds"
    using c by (auto simp: enabled_names_def)
  show ?case
    using c by (simp add: IH en dom_set_add DependencyDescriptor_def)
qed

section \<open>Cache lemmas\<close>

lemma load_eq:
  "load w p =
     (if \<not> package_exists_at w p then Inr (None, None)
      else case parse_package w p of
             Parsed pkg \<Rightarrow>
               (case pkg_get_build_type pkg of
                  BuildType bt \<Rightarrow> Inr (Some (evaluate_conditions w pkg), bt)
                | RaisesMultipleBuildTypes \<Rightarrow> Inl (KeyError ''path''))
           | RaisesInvalidPackage \<Rightarrow> Inr (None, None)
           | RaisesAssertionError \<Rightarrow> Inr (None, None))"
  by (simp add: load_def get_package_with_build_type_def initial_state_def get_package_def
      get_build_type_def emit_def evaluate_conditions_def Let_def
      split: parse_result.splits build_type_result.splits)

lemma lookup_hit:
  "cached_packages s p = Some entry \<Longrightarrow> get_package_with_build_type w p s = (Inr entry, s)"
  by (simp add: get_package_with_build_type_def)

lemma lookup_miss_result:
  "cached_packages s p = None \<Longrightarrow> fst (get_package_with_build_type w p s) = load w p"
  by (simp add: load_def get_package_with_build_type_def initial_state_def get_package_def
      get_build_type_def emit_def Let_def
      split: parse_result.splits build_type_result.splits)

lemma lookup_miss_cache:
  "cached_packages s p = None \<Longrightarrow>
   cached_packages (snd (get_package_with_build_type w p s)) =
     (case load w p of Inl e \<Rightarrow> cached_packages s | Inr entry \<Rightarrow> (cached_packages s)(p \<mapsto> entry))"
  by (simp add: load_def get_package_with_build_type_def initial_state_def get_package_def
      get_build_type_def emit_def Let_def
      split: parse_result.splits build_type_result.splits)

lemma cache_ok_initial: "cache_ok w initial_state"
  by (simp add: cache_ok_def initial_state_def)

lemma lookup_result:
  "cache_ok w s \<Longrightarrow> fst (get_package_with_build_type w p s) = load w p"
  by (cases "cached_packages s p") (auto simp: lookup_miss_result lookup_hit cache_ok_def)

lemma lookup_cache_ok:
  assumes "cache_ok w s"
  shows "cache_ok w (snd (get_package_with_build_type w p s))"
proof (cases "cached_packages s p")
  case None
  from lookup_miss_cache [OF None, of w] assms show ?thesis
    by (auto simp: cache_ok_def split: sum.splits if_splits)
next
  case (Some entry)
  with assms show ?thesis by (simp add: lookup_hit)
qed

lemma lookup_stores:
  "fst (get_package_with_build_type w p s) = Inr entry \<Longrightarrow>
   cached_packages (snd (get_package_with_build_type w p s)) p = Some entry"
  by (cases "cached_packages s p")
     (auto simp: lookup_hit lookup_miss_cache lookup_miss_result)

lemma lookup_twice:
  assumes "fst (get_package_with_build_type w p s) = Inr entry"
  shows "get_package_with_build_type w p (snd (get_package_with_build_type w p s)) =
           (Inr entry, snd (get_package_with_build_type w p s))"
  using lookup_stores [OF assms] by (rule lookup_hit)

lemma identify_cache_ok:
  assumes "cache_ok w s"
  shows "cache_ok w (snd (snd (identify w desc s)))"
proof -
  obtain r s1 where l: "get_package_with_build_type w (desc_path desc) s = (r, s1)"
    by (cases "get_package_with_build_type w (desc_path desc) s")
  with lookup_cache_ok [OF assms, of "desc_path desc"] have ok: "cache_ok w s1" by simp
  have em: "\<And>e. cache_ok w (emit e s1)" using ok by (simp add: cache_ok_def emit_def)
  show ?thesis
    using assms ok em l
    by (auto simp: identify_def split: sum.splits option.splits prod.splits)
qed

lemma loaded_dependencies_evaluated:
  assumes "load w p = Inr (Some pkg, bt)"
  shows "\<forall>d \<in> set (category_depends pkg cat). dep_evaluated_condition d \<noteq> None"
proof -
  from assms obtain pkg0 where "pkg = evaluate_conditions w pkg0"
    by (auto simp: load_eq split: if_splits parse_result.splits build_type_result.splits)
  then show ?thesis
    by (auto simp: category_depends_def evaluate_conditions_def evaluate_dependency_def)
qed

lemma loaded_groups_evaluated:
  assumes "load w p = Inr (Some pkg, bt)"
  shows "\<forall>g \<in> set (group_depends pkg). group_evaluated_condition g \<noteq> None"
proof -
  from assms obtain pkg0 where "pkg = evaluate_conditions w pkg0"
    by (auto simp: load_eq split: if_splits parse_result.splits build_type_result.splits)
  then show ?thesis
    by (auto simp: evaluate_conditions_def evaluate_group_def)
qed

lemma add_category_deps:
  "desc_dependencies (snd (add_category cat ds desc)) =
     (desc_dependencies desc)(cat := snd (add_depends ds (desc_dependencies desc cat)))"
  by (simp add: add_category_def split: prod.splits)

lemma add_category_fst:
  "fst (add_category cat ds desc) = fst (add_depends ds (desc_dependencies desc cat))"
  by (simp add: add_category_def split: prod.splits)

lemma add_category_frame:
  "desc_path (snd (add_category cat ds desc)) = desc_path desc"
  "desc_type (snd (add_category cat ds desc)) = desc_type desc"
  "desc_name (snd (add_category cat ds desc)) = desc_name desc"
  "desc_metadata (snd (add_category cat ds desc)) = desc_metadata desc"
  by (simp_all add: add_category_def split: prod.splits)

section \<open>Lemmas about identify\<close>

lemma populate_category:
  "desc_dependencies (snd (populate pkg bt desc)) cat = desc_dependencies desc cat \<or>
   desc_dependencies (snd (populate pkg bt desc)) cat =
     snd (add_depends (category_depends pkg cat) (desc_dependencies desc cat))"
  by (auto simp: populate_def Let_def add_category_def category_depends_def
      split: prod.splits outcome.splits)

lemma populate_evaluated:
  assumes "\<And>cat. \<forall>d \<in> set (category_depends pkg cat). dep_evaluated_condition d \<noteq> None"
  shows "fst (populate pkg bt desc) = Returned"
    and "desc_dependencies (snd (populate pkg bt desc)) cat =
           snd (add_depends (category_depends pkg cat) (desc_dependencies desc cat))"
proof -
  have b: "\<And>deps. fst (add_depends (build_depends pkg @ buildtool_depends pkg) deps) = Returned"
    using assms [of "''build''"] add_depends_evaluated by (simp add: category_depends_def)
  have r: "\<And>deps. fst (add_depends
        (build_export_depends pkg @ buildtool_export_depends pkg @ exec_depends pkg) deps) = Returned"
    using assms [of "''run''"] add_depends_evaluated by (simp add: category_depends_def)
  have t: "\<And>deps. fst (add_depends (test_depends pkg) deps) = Returned"
    using assms [of "''test''"] add_depends_evaluated by (simp add: category_depends_def)
  have b': "\<And>deps x y. add_depends (build_depends pkg @ buildtool_depends pkg) deps = (x, y) \<Longrightarrow> x = Returned"
    using b by (metis fst_conv)
  have r': "\<And>deps x y. add_depends
        (build_export_depends pkg @ buildtool_export_depends pkg @ exec_depends pkg) deps = (x, y) \<Longrightarrow> x = Returned"
    using r by (metis fst_conv)
  have t': "\<And>deps x y. add_depends (test_depends pkg) deps = (x, y) \<Longrightarrow> x = Returned"
    using t by (metis fst_conv)
  show "fst (populate pkg bt desc) = Returned"
    by (auto simp: populate_def Let_def add_category_def split: prod.splits outcome.splits
        dest: b' r' t')
  show "desc_dependencies (snd (populate pkg bt desc)) cat =
           snd (add_depends (category_depends pkg cat) (desc_dependencies desc cat))"
    by (auto simp: populate_def Let_def add_category_def category_depends_def
        split: prod.splits outcome.splits dest: b' r' t')
qed

lemma populate_frame:
  "desc_path (snd (populate pkg bt desc)) = desc_path desc"
  "desc_type (snd (populate pkg bt desc)) = Some (''ros.'' @ bt)"
  "desc_name (snd (populate pkg bt desc)) =
     (case desc_name desc of None \<Rightarrow> Some (pkg_name pkg) | Some n \<Rightarrow> Some n)"
  by (auto simp: populate_def Let_def add_category_def
      split: prod.splits outcome.splits option.splits)

lemma identify_populates:
  assumes "cache_ok w s"
    and "desc_type desc = None \<or> desc_type desc = Some ''ros''"
    and "\<not> path_exists w (desc_path desc) ''CATKIN_IGNORE''"
    and "\<not> path_exists w (desc_path desc) ''AMENT_IGNORE''"
    and "load w (desc_path desc) = Inr (Some pkg, Some bt)"
    and "bt \<noteq> []"
    and "bt = ''ament_python'' \<longrightarrow> path_is_file w (desc_path desc) ''setup.py''"
  shows "fst (identify w desc s) = fst (populate pkg bt desc)"
    and "fst (snd (identify w desc s)) = snd (populate pkg bt desc)"
proof -
  obtain r s1 where l: "get_package_with_build_type w (desc_path desc) s = (r, s1)"
    by (cases "get_package_with_build_type w (desc_path desc) s")
  with lookup_result [OF assms(1), of "desc_path desc"] assms(5)
  have r: "r = Inr (Some pkg, Some bt)" by simp
  show "fst (identify w desc s) = fst (populate pkg bt desc)"
    using assms(2-4,6,7) l r by (auto simp: identify_def split: prod.splits)
  show "fst (snd (identify w desc s)) = snd (populate pkg bt desc)"
    using assms(2-4,6,7) l r by (auto simp: identify_def split: prod.splits)
qed

lemma identify_shape:
  "fst (snd (identify w desc s)) = desc \<or>
   (\<exists>pkg bt. fst (get_package_with_build_type w (desc_path desc) s) = Inr (Some pkg, Some bt) \<and>
      fst (snd (identify w desc s)) = snd (populate pkg bt desc))"
proof -
  obtain r s1 where l: "get_package_with_build_type w (desc_path desc) s = (r, s1)"
    by (cases "get_package_with_build_type w (desc_path desc) s")
  show ?thesis
    using l by (auto simp: identify_def split: prod.splits sum.splits option.splits)
qed

lemma create_metadata_eq:
  "create_metadata d attr = (if attr \<in> set attributes then getattr d attr else None)"
  by (simp add: create_metadata_def attributes_def getattr_def split: option.splits)

lemma workspace_simps:
  "fs workspace = (\<lambda>p n. if p = ''/ws/b'' \<and> n = ''setup.py'' then File
                    else if p = ''/ws/ignored'' \<and> n = ''CATKIN_IGNORE'' then File
                    else Missing)"
  "package_exists_at workspace = (\<lambda>p. p = ''/ws/a'' \<or> p = ''/ws/b'' \<or> p = ''/ws/c'' \<or>
                                p = ''/ws/ignored'' \<or> p = ''/ws/two'' \<or> p = ''/ws/broken'')"
  "parse_package workspace = (\<lambda>p. if p = ''/ws/a'' then Parsed manifest_a
                            else if p = ''/ws/b'' \<or> p = ''/ws/c'' \<or> p = ''/ws/ignored''
                              then Parsed manifest_b
                            else if p = ''/ws/two'' then Parsed manifest_two
                            else RaisesInvalidPackage)"
  "evaluate_condition workspace = (\<lambda>c. c = None \<or> c = Some ''$ROS_VERSION == 2'')"
  by (simp_all add: workspace_def)

text \<open>
  A second \<^verbatim>\<open>identify\<close> for a path whose first lookup returned: the same outcome, the
  same descriptor, and no further call to the parser.
\<close>

lemma identify_cached_state:
  assumes "cached_packages s (desc_path desc) = Some entry"
  shows "snd (snd (identify w desc s)) = s \<or>
         snd (snd (identify w desc s)) =
           emit (Logged ERROR (no_setup_py_message (desc_path desc) ''ament_python'')) s"
  using lookup_hit [OF assms, of w]
  by (auto simp: identify_def split: prod.splits option.splits)

lemma identify_depends_on_lookup:
  assumes "fst (get_package_with_build_type w (desc_path desc) s) =
           fst (get_package_with_build_type w (desc_path desc) t)"
  shows "fst (identify w desc s) = fst (identify w desc t)"
    and "fst (snd (identify w desc s)) = fst (snd (identify w desc t))"
proof -
  obtain r s1 where l: "get_package_with_build_type w (desc_path desc) s = (r, s1)"
    by (cases "get_package_with_build_type w (desc_path desc) s")
  obtain r' t1 where l': "get_package_with_build_type w (desc_path desc) t = (r', t1)"
    by (cases "get_package_with_build_type w (desc_path desc) t")
  from assms l l' have r: "r' = r" by simp
  show "fst (identify w desc s) = fst (identify w desc t)"
    using l l' r by (auto simp: identify_def split: prod.splits sum.splits option.splits)
  show "fst (snd (identify w desc s)) = fst (snd (identify w desc t))"
    using l l' r by (auto simp: identify_def split: prod.splits sum.splits option.splits)
qed

lemma identify_stores:
  assumes "fst (get_package_with_build_type w (desc_path desc) s) = Inr entry"
    and "desc_type desc = None \<or> desc_type desc = Some ''ros''"
    and "\<not> path_exists w (desc_path desc) ''CATKIN_IGNORE''"
    and "\<not> path_exists w (desc_path desc) ''AMENT_IGNORE''"
  shows "cached_packages (snd (snd (identify w desc s))) (desc_path desc) = Some entry"
proof -
  obtain r s1 where l: "get_package_with_build_type w (desc_path desc) s = (r, s1)"
    by (cases "get_package_with_build_type w (desc_path desc) s")
  with assms(1) have r: "r = Inr entry" by simp
  from lookup_stores [OF assms(1)] l have c: "cached_packages s1 (desc_path desc) = Some entry"
    by simp
  show ?thesis
    using assms(2-4) l r c
    by (auto simp: identify_def emit_def split: prod.splits option.splits)
qed

lemma identify_same_path_again:
  assumes "fst (get_package_with_build_type w (desc_path desc) s) = Inr entry"
    and "desc_type desc = None \<or> desc_type desc = Some ''ros''"
    and "\<not> path_exists w (desc_path desc) ''CATKIN_IGNORE''"
    and "\<not> path_exists w (desc_path desc) ''AMENT_IGNORE''"
  shows "fst (identify w desc (snd (snd (identify w desc s)))) = fst (identify w desc s)"
    and "fst (snd (identify w desc (snd (snd (identify w desc s))))) =
         fst (snd (identify w desc s))"
    and "filter (\<lambda>e. \<forall>m. e \<noteq> Logged ERROR m)
           (trace (snd (snd (identify w desc (snd (snd (identify w desc s))))))) =
         filter (\<lambda>e. \<forall>m. e \<noteq> Logged ERROR m) (trace (snd (snd (identify w desc s))))"
proof -
  let ?s' = "snd (snd (identify w desc s))"
  have c: "cached_packages ?s' (desc_path desc) = Some entry"
    by (rule identify_stores [OF assms])
  have "fst (get_package_with_build_type w (desc_path desc) ?s') = Inr entry"
    by (simp add: lookup_hit [OF c])
  with assms(1) have eq: "fst (get_package_with_build_type w (desc_path desc) ?s') =
      fst (get_package_with_build_type w (desc_path desc) s)" by simp
  show "fst (identify w desc ?s') = fst (identify w desc s)"
    by (rule identify_depends_on_lookup(1) [OF eq])
  show "fst (snd (identify w desc ?s')) = fst (snd (identify w desc s))"
    by (rule identify_depends_on_lookup(2) [OF eq])
  show "filter (\<lambda>e. \<forall>m. e \<noteq> Logged ERROR m) (trace (snd (snd (identify w desc ?s')))) =
         filter (\<lambda>e. \<forall>m. e \<noteq> Logged ERROR m) (trace ?s')"
    using identify_cached_state [OF c, of w] by (auto simp: emit_def)
qed

section \<open>The workspace, evaluated\<close>

lemma new_descriptor_simps:
  "desc_path (new_descriptor p) = p"
  "desc_type (new_descriptor p) = None"
  "desc_name (new_descriptor p) = None"
  "desc_dependencies (new_descriptor p) = (\<lambda>cat. Map.empty)"
  "desc_metadata (new_descriptor p) = Map.empty"
  by (simp_all add: new_descriptor_def)

lemma cmake_descriptor_simps:
  "desc_path (cmake_descriptor p) = p"
  "desc_type (cmake_descriptor p) = Some ''cmake''"
  "desc_dependencies (cmake_descriptor p) = (\<lambda>cat. Map.empty)"
  by (simp_all add: cmake_descriptor_def new_descriptor_def)

lemma enabled_names_simps:
  "enabled_names [] = {}"
  "enabled_names (d # ds) =
     (if dep_evaluated_condition d = Some True then insert (dep_name d) (enabled_names ds)
      else enabled_names ds)"
  "enabled_names (xs @ ys) = enabled_names xs \<union> enabled_names ys"
  by (auto simp: enabled_names_def)

lemma load_workspace_a:
  "load workspace ''/ws/a'' = Inr (Some (evaluate_conditions workspace manifest_a), Some ''ament_cmake'')"
  by (simp add: load_eq workspace_simps manifest_a_def)

lemma load_workspace_b:
  "load workspace ''/ws/b'' = Inr (Some (evaluate_conditions workspace manifest_b), Some ''ament_python'')"
  "load workspace ''/ws/c'' = Inr (Some (evaluate_conditions workspace manifest_b), Some ''ament_python'')"
  "load workspace ''/ws/ignored'' = Inr (Some (evaluate_conditions workspace manifest_b), Some ''ament_python'')"
  by (simp_all add: load_eq workspace_simps manifest_b_def)

lemma evaluated_manifest_a:
  "build_depends (evaluate_conditions workspace manifest_a) =
     [(depend ''foo'' None)\<lparr>version_gte := Some ''1.2'', dep_evaluated_condition := Some True\<rparr>]"
  "buildtool_depends (evaluate_conditions workspace manifest_a) = []"
  "build_export_depends (evaluate_conditions workspace manifest_a) = []"
  "buildtool_export_depends (evaluate_conditions workspace manifest_a) = []"
  "exec_depends (evaluate_conditions workspace manifest_a) =
     [(depend ''bar'' (Some ''$ROS_VERSION == 1''))\<lparr>dep_evaluated_condition := Some False\<rparr>]"
  "test_depends (evaluate_conditions workspace manifest_a) = []"
  by (simp_all add: evaluate_conditions_def evaluate_dependency_def manifest_a_def depend_def
      workspace_simps)

lemma evaluated_manifest_b:
  "test_depends (evaluate_conditions workspace manifest_b) =
     [(depend ''pytest'' None)\<lparr>dep_evaluated_condition := Some True\<rparr>]"
  by (simp_all add: evaluate_conditions_def evaluate_dependency_def manifest_b_def depend_def
      workspace_simps)

lemma create_metadata_keys:
  "dom (create_metadata d) \<subseteq> set attributes"
  "create_metadata d ''version_lte'' = version_lte d"
  "create_metadata d ''version_lt'' = version_lt d"
  "create_metadata d ''version_gte'' = version_gte d"
  "create_metadata d ''version_gt'' = version_gt d"
  "create_metadata d ''version_eq'' = version_eq d"
  by (auto simp: create_metadata_eq getattr_def attributes_def split: if_splits)

lemma identify_workspace_a_build:
  "desc_dependencies (fst (snd (identify workspace (new_descriptor ''/ws/a'') initial_state)))
     ''build'' ''foo'' = Some [''version_gte'' \<mapsto> ''1.2'']"
proof -
  have "desc_dependencies (fst (snd (identify workspace (new_descriptor ''/ws/a'') initial_state)))
     ''build'' =
     snd (add_depends (category_depends (evaluate_conditions workspace manifest_a) ''build'')
        (desc_dependencies (new_descriptor ''/ws/a'') ''build''))"
    using identify_populates(2) [of workspace initial_state "new_descriptor ''/ws/a''"
        "evaluate_conditions workspace manifest_a" "''ament_cmake''"]
      populate_evaluated(2) [of "evaluate_conditions workspace manifest_a"
         "''ament_cmake''" "new_descriptor ''/ws/a''" "''build''"]
      loaded_dependencies_evaluated [OF load_workspace_a]
    by (simp add: cache_ok_initial new_descriptor_simps load_workspace_a path_exists_def
        workspace_simps)
  then show ?thesis
    by (simp add: category_depends_def evaluated_manifest_a new_descriptor_simps set_add_def
        DependencyDescriptor_def create_metadata_def attributes_def getattr_def depend_def)
qed

lemma identify_workspace_two:
  "cached_packages s ''/ws/two'' = None \<Longrightarrow>
   identify workspace (new_descriptor ''/ws/two'') s =
     (Raised (KeyError ''path''), new_descriptor ''/ws/two'',
      s\<lparr>trace := trace s @ [Called_package_exists_at ''/ws/two'',
         Called_parse_package ''/ws/two'', Called_get_build_type ''two'']\<rparr>)"
  by (simp add: identify_def new_descriptor_simps path_exists_def workspace_simps
      get_package_with_build_type_def get_package_def get_build_type_def emit_def
      manifest_two_def evaluate_conditions_def)

section \<open>Monotonicity of the dependency sets\<close>

lemma add_member_frame:
  "desc_path (add_member n desc) = desc_path desc"
  "desc_type (add_member n desc) = desc_type desc"
  "desc_name (add_member n desc) = desc_name desc"
  "desc_metadata (add_member n desc) = desc_metadata desc"
  by (simp_all add: add_member_def Let_def)

lemma add_member_dependencies:
  "desc_dependencies (add_member n desc) cat =
     (if cat = ''build'' \<or> cat = ''run''
      then set_add (DependencyDescriptor n Map.empty) (desc_dependencies desc cat)
      else desc_dependencies desc cat)"
  by (simp add: add_member_def Let_def)

lemma add_member_le:
  "desc_dependencies desc cat \<subseteq>\<^sub>m desc_dependencies (add_member n desc) cat"
  by (simp add: add_member_dependencies set_add_le)

lemma fold_add_member_le:
  "desc_dependencies desc cat \<subseteq>\<^sub>m desc_dependencies (fold add_member ns desc) cat"
proof (induction ns arbitrary: desc)
  case Nil
  show ?case by simp
next
  case (Cons n ns)
  have "desc_dependencies desc cat \<subseteq>\<^sub>m desc_dependencies (add_member n desc) cat"
    by (rule add_member_le)
  also have "\<dots> \<subseteq>\<^sub>m desc_dependencies (fold add_member ns (add_member n desc)) cat"
    by (rule Cons.IH)
  finally show ?case by simp
qed

lemma add_group_depends_le:
  "desc_dependencies desc cat \<subseteq>\<^sub>m
   desc_dependencies (snd (add_group_depends gs packages desc)) cat"
proof (induction gs arbitrary: desc)
  case Nil
  show ?case by simp
next
  case (Cons g gs)
  show ?case
  proof (cases "group_evaluated_condition g")
    case None
    then show ?thesis by simp
  next
    case (Some c)
    show ?thesis
    proof (cases c)
      case True
      have "desc_dependencies desc cat \<subseteq>\<^sub>m
          desc_dependencies (fold add_member (extract_group_members g packages) desc) cat"
        by (rule fold_add_member_le)
      also have "\<dots> \<subseteq>\<^sub>m desc_dependencies (snd (add_group_depends gs packages
           (fold add_member (extract_group_members g packages) desc))) cat"
        by (rule Cons.IH)
      finally show ?thesis using Some True by simp
    next
      case False
      with Some Cons.IH [of desc] show ?thesis by simp
    qed
  qed
qed

lemma grows_refl: "grows d d"
  by (simp add: grows_def)

lemma grows_trans: "grows a b \<Longrightarrow> grows b c \<Longrightarrow> grows a c"
  unfolding grows_def using map_le_trans by blast

lemma resolve_groups_length:
  "length (snd (resolve_groups items packages descs)) = length descs"
proof (induction items arbitrary: descs)
  case Nil
  show ?case by simp
next
  case (Cons item items)
  obtain p pkg i where item: "item = (p, pkg, i)" by (cases item) auto
  obtain r d where a: "add_group_depends (group_depends pkg) packages (descs ! i) = (r, d)"
    by (cases "add_group_depends (group_depends pkg) packages (descs ! i)")
  show ?case
    using Cons.IH [of "descs[i := d]"] by (cases r) (simp_all add: item a)
qed

lemma resolve_groups_grows:
  "j < length descs \<Longrightarrow> grows (descs ! j) (snd (resolve_groups items packages descs) ! j)"
proof (induction items arbitrary: descs)
  case Nil
  show ?case by (simp add: grows_refl)
next
  case (Cons item items)
  obtain p pkg i where item: "item = (p, pkg, i)" by (cases item) auto
  obtain r d where a: "add_group_depends (group_depends pkg) packages (descs ! i) = (r, d)"
    by (cases "add_group_depends (group_depends pkg) packages (descs ! i)")
  have d: "grows (descs ! i) d"
    using add_group_depends_le [of "descs ! i" _ "group_depends pkg" packages]
    by (simp add: a grows_def)
  have one: "grows (descs ! j) (descs[i := d] ! j)"
    using Cons.prems d by (cases "i = j") (simp_all add: grows_refl)
  show ?case
  proof (cases r)
    case Returned
    have "grows (descs[i := d] ! j) (snd (resolve_groups items packages (descs[i := d])) ! j)"
      using Cons.prems by (intro Cons.IH) simp
    with one show ?thesis
      using Returned by (simp add: item a) (rule grows_trans)
  next
    case (Raised e)
    with one show ?thesis by (simp add: item a)
  qed
qed

lemma augment_packages_length:
  "length (fst (snd (augment_packages descs s))) = length descs"
  by (simp add: augment_packages_def Let_def resolve_groups_length split: prod.splits)
     (metis resolve_groups_length snd_conv)

lemma augment_packages_grows:
  "j < length descs \<Longrightarrow> grows (descs ! j) (fst (snd (augment_packages descs s)) ! j)"
  using resolve_groups_grows [of j descs]
  by (simp add: augment_packages_def Let_def split: prod.splits) (metis snd_conv)

lemma augment_packages_state: "snd (snd (augment_packages descs s)) = s"
  by (simp add: augment_packages_def Let_def split: prod.splits)

lemma identify_grows: "grows desc (fst (snd (identify w desc s)))"
proof -
  from identify_shape [of w desc s] show ?thesis
  proof
    assume "fst (snd (identify w desc s)) = desc"
    then show ?thesis by (simp add: grows_refl)
  next
    assume "\<exists>pkg bt. fst (get_package_with_build_type w (desc_path desc) s) = Inr (Some pkg, Some bt) \<and>
      fst (snd (identify w desc s)) = snd (populate pkg bt desc)"
    then obtain pkg bt where p: "fst (snd (identify w desc s)) = snd (populate pkg bt desc)"
      by blast
    show ?thesis
      unfolding grows_def p
      using populate_category [of pkg bt desc] add_depends_le by (metis map_le_refl)
  qed
qed

lemma scatter_simps:
  "scatter [] batch descs = descs"
  "scatter idx [] descs = descs"
  "scatter (i # idx) (b # batch) descs = scatter idx batch (descs[i := b])"
  by (simp_all add: scatter_def)

lemma scatter_length: "length (scatter idx batch descs) = length descs"
proof (induction idx arbitrary: batch descs)
  case Nil
  show ?case by (simp add: scatter_simps)
next
  case (Cons i idx)
  then show ?case by (cases batch) (simp_all add: scatter_simps)
qed

lemma scatter_grows:
  assumes "distinct idx"
    and "\<forall>k < length idx. k < length batch \<longrightarrow> grows (descs ! (idx ! k)) (batch ! k)"
    and "j < length descs"
  shows "grows (descs ! j) (scatter idx batch descs ! j)"
  using assms
proof (induction idx arbitrary: batch descs)
  case Nil
  show ?case by (simp add: scatter_simps grows_refl)
next
  case (Cons i idx)
  show ?case
  proof (cases batch)
    case Nil
    then show ?thesis by (simp add: scatter_simps grows_refl)
  next
    case (Cons b bs)
    from Cons.prems(2) have b: "grows (descs ! i) b"
      using Cons by (auto dest: spec [of _ 0])
    have one: "grows (descs ! j) (descs[i := b] ! j)"
      using Cons.prems(3) b by (cases "i = j") (simp_all add: grows_refl)
    have rest: "\<forall>k < length idx. k < length bs \<longrightarrow> grows (descs[i := b] ! (idx ! k)) (bs ! k)"
    proof (intro allI impI)
      fix k assume k: "k < length idx" "k < length bs"
      with Cons.prems(1) have "idx ! k \<noteq> i" by auto
      moreover from Cons.prems(2) k Cons have "grows (descs ! (idx ! k)) (bs ! k)"
        by (auto dest: spec [of _ "Suc k"])
      ultimately show "grows (descs[i := b] ! (idx ! k)) (bs ! k)" by simp
    qed
    have "grows (descs[i := b] ! j) (scatter idx bs (descs[i := b]) ! j)"
      using Cons.prems(1,3) rest by (intro Cons.IH) simp_all
    with one show ?thesis
      by (simp add: Cons scatter_simps) (rule grows_trans)
  qed
qed

lemma step_length: "length (fst (step w c (descs, s))) = length descs"
  by (cases c) (simp_all add: Let_def scatter_length split: prod.splits)

lemma step_grows:
  assumes "j < length descs"
  shows "grows (descs ! j) (fst (step w c (descs, s)) ! j)"
proof (cases c)
  case (Identify i)
  show ?thesis
  proof (cases "i < length descs")
    case True
    obtain r d s' where id: "identify w (descs ! i) s = (r, d, s')"
      by (cases "identify w (descs ! i) s") auto
    have g: "grows (descs ! i) d" using identify_grows [of "descs ! i" w s] by (simp add: id)
    have st: "fst (step w c (descs, s)) = descs[i := d]"
      using True by (simp add: Identify id)
    show ?thesis
      unfolding st using g assms by (cases "i = j") (simp_all add: grows_refl)
  next
    case False
    then show ?thesis by (simp add: Identify grows_refl)
  qed
next
  case (Augment batch)
  define idx where "idx = remdups (filter (\<lambda>i. i < length descs) batch)"
  define b where "b = map (\<lambda>i. descs ! i) idx"
  define b' where "b' = fst (snd (augment_packages b s))"
  have st: "fst (step w c (descs, s)) = scatter idx b' descs"
    by (simp add: Augment Let_def idx_def b_def b'_def split: prod.splits)
  have "distinct idx" by (simp add: idx_def)
  moreover have "\<forall>k < length idx. k < length b' \<longrightarrow> grows (descs ! (idx ! k)) (b' ! k)"
  proof (intro allI impI)
    fix k assume k: "k < length idx"
    then have "k < length b" by (simp add: b_def)
    from augment_packages_grows [OF this, of s] k
    show "grows (descs ! (idx ! k)) (b' ! k)" by (simp add: b_def b'_def)
  qed
  ultimately show ?thesis
    unfolding st using assms by (rule scatter_grows)
qed

lemma run_length: "length (fst (run w calls (descs, s))) = length descs"
proof (induction calls arbitrary: descs s)
  case Nil
  show ?case by (simp add: run_def)
next
  case (Cons c calls)
  obtain descs1 s1 where st: "step w c (descs, s) = (descs1, s1)"
    by (cases "step w c (descs, s)")
  have "length descs1 = length descs" using step_length [of w c descs s] by (simp add: st)
  with Cons.IH [of descs1 s1] show ?case by (simp add: run_def st)
qed

lemma run_grows:
  "j < length descs \<Longrightarrow> grows (descs ! j) (fst (run w calls (descs, s)) ! j)"
proof (induction calls arbitrary: descs s)
  case Nil
  show ?case by (simp add: run_def grows_refl)
next
  case (Cons c calls)
  obtain descs1 s1 where st: "step w c (descs, s) = (descs1, s1)"
    by (cases "step w c (descs, s)")
  have len: "length descs1 = length descs" using step_length [of w c descs s] by (simp add: st)
  have one: "grows (descs ! j) (descs1 ! j)"
    using step_grows [OF Cons.prems, of w c s] by (simp add: st)
  have "grows (descs1 ! j) (fst (run w calls (descs1, s1)) ! j)"
    using Cons.prems len by (intro Cons.IH) simp
  with one show ?case
    by (simp add: run_def st) (rule grows_trans)
qed

section \<open>Lemmas about augment_packages\<close>

lemma update_fresh: "k \<notin> fst ` set al \<Longrightarrow> AList.update k v al = al @ [(k, v)]"
  by (induction al) auto

lemma collect_pkgs_append:
  "distinct (map desc_path descs) \<Longrightarrow> desc_path ` set descs \<inter> fst ` set acc = {} \<Longrightarrow>
   collect_pkgs cache descs i acc = acc @ collect_pkgs cache descs i []"
proof (induction descs arbitrary: i acc)
  case Nil
  show ?case by simp
next
  case (Cons d ds)
  have dist: "distinct (map desc_path ds)" using Cons.prems(1) by simp
  have disj: "desc_path ` set ds \<inter> fst ` set acc = {}" using Cons.prems(2) by auto
  show ?case
  proof (cases "cache (desc_path d)")
    case None
    then show ?thesis using Cons.IH [OF dist disj] by simp
  next
    case (Some entry)
    obtain pk bt where entry: "entry = (pk, bt)" by (cases entry)
    show ?thesis
    proof (cases pk)
      case None
      then show ?thesis using Some entry Cons.IH [OF dist disj] by simp
    next
      case (Some pkg)
      have fresh: "desc_path d \<notin> fst ` set acc" using Cons.prems(2) by auto
      have 1: "desc_path ` set ds \<inter> fst ` set (acc @ [(desc_path d, pkg, i)]) = {}"
        using disj Cons.prems(1) by auto
      have 2: "desc_path ` set ds \<inter> fst ` set [(desc_path d, pkg, i)] = {}"
        using Cons.prems(1) by auto
      have "collect_pkgs cache (d # ds) i acc =
          collect_pkgs cache ds (Suc i) (acc @ [(desc_path d, pkg, i)])"
        using \<open>cache (desc_path d) = Some entry\<close> entry Some by (simp add: update_fresh [OF fresh])
      also have "\<dots> = (acc @ [(desc_path d, pkg, i)]) @ collect_pkgs cache ds (Suc i) []"
        by (rule Cons.IH [OF dist 1])
      also have "\<dots> = acc @ collect_pkgs cache ds (Suc i) [(desc_path d, pkg, i)]"
        using Cons.IH [OF dist 2, of "Suc i"] by simp
      also have "\<dots> = acc @ collect_pkgs cache (d # ds) i []"
        using \<open>cache (desc_path d) = Some entry\<close> entry Some by simp
      finally show ?thesis .
    qed
  qed
qed

lemma collect_pkgs_Cons:
  assumes "distinct (map desc_path (d # ds))"
  shows "collect_pkgs cache (d # ds) i [] =
     (case cache (desc_path d) of
        None \<Rightarrow> collect_pkgs cache ds (Suc i) []
      | Some (None, bt) \<Rightarrow> collect_pkgs cache ds (Suc i) []
      | Some (Some pkg, bt) \<Rightarrow> (desc_path d, pkg, i) # collect_pkgs cache ds (Suc i) [])"
proof -
  have "\<And>pkg. collect_pkgs cache ds (Suc i) [(desc_path d, pkg, i)] =
      [(desc_path d, pkg, i)] @ collect_pkgs cache ds (Suc i) []"
    using assms by (intro collect_pkgs_append) auto
  then show ?thesis by (simp split: option.splits prod.splits)
qed

lemma collect_pkgs_set:
  assumes "distinct (map desc_path descs)"
  shows "set (collect_pkgs cache descs i []) =
     {(desc_path (descs ! j), pkg, i + j) | j pkg bt.
        j < length descs \<and> cache (desc_path (descs ! j)) = Some (Some pkg, bt)}"
  using assms
proof (induction descs arbitrary: i)
  case Nil
  show ?case by simp
next
  case (Cons d ds)
  have dist: "distinct (map desc_path ds)" using Cons.prems by simp
  let ?R = "\<lambda>ds i. {(desc_path (ds ! j), pkg, i + j) | j pkg bt.
        j < length ds \<and> cache (desc_path (ds ! j)) = Some (Some pkg, bt)}"
  have split: "?R (d # ds) i =
      {(desc_path d, pkg, i) | pkg bt. cache (desc_path d) = Some (Some pkg, bt)} \<union> ?R ds (Suc i)"
  proof (intro set_eqI iffI)
    fix x assume "x \<in> ?R (d # ds) i"
    then obtain j pkg bt where x: "x = (desc_path ((d # ds) ! j), pkg, i + j)"
      and j: "j < length (d # ds)" and c: "cache (desc_path ((d # ds) ! j)) = Some (Some pkg, bt)"
      by blast
    show "x \<in> {(desc_path d, pkg, i) | pkg bt. cache (desc_path d) = Some (Some pkg, bt)} \<union> ?R ds (Suc i)"
    proof (cases j)
      case 0
      with x c show ?thesis by auto
    next
      case (Suc j')
      with x j c have "x = (desc_path (ds ! j'), pkg, Suc i + j')" "j' < length ds"
        "cache (desc_path (ds ! j')) = Some (Some pkg, bt)" by simp_all
      then show ?thesis by blast
    qed
  next
    fix x assume "x \<in> {(desc_path d, pkg, i) | pkg bt. cache (desc_path d) = Some (Some pkg, bt)} \<union> ?R ds (Suc i)"
    then show "x \<in> ?R (d # ds) i"
    proof
      assume "x \<in> {(desc_path d, pkg, i) | pkg bt. cache (desc_path d) = Some (Some pkg, bt)}"
      then obtain pkg bt where "x = (desc_path ((d # ds) ! 0), pkg, i + 0)"
        "cache (desc_path ((d # ds) ! 0)) = Some (Some pkg, bt)" by auto
      moreover have "0 < length (d # ds)" by simp
      ultimately show ?thesis by blast
    next
      assume "x \<in> ?R ds (Suc i)"
      then obtain j pkg bt where "x = (desc_path (ds ! j), pkg, Suc i + j)" "j < length ds"
        "cache (desc_path (ds ! j)) = Some (Some pkg, bt)" by blast
      then have "x = (desc_path ((d # ds) ! Suc j), pkg, i + Suc j)" "Suc j < length (d # ds)"
        "cache (desc_path ((d # ds) ! Suc j)) = Some (Some pkg, bt)" by simp_all
      then show ?thesis by blast
    qed
  qed
  show ?case
    unfolding split collect_pkgs_Cons [OF Cons.prems] using Cons.IH [OF dist, of "Suc i"]
    by (auto split: option.splits)
qed

lemma collect_pkgs_indices:
  assumes "distinct (map desc_path descs)"
  shows "distinct (map (\<lambda>item. snd (snd item)) (collect_pkgs cache descs i []))"
  using assms
proof (induction descs arbitrary: i)
  case Nil
  show ?case by simp
next
  case (Cons d ds)
  have dist: "distinct (map desc_path ds)" using Cons.prems by simp
  have "i \<notin> (\<lambda>item. snd (snd item)) ` set (collect_pkgs cache ds (Suc i) [])"
    unfolding collect_pkgs_set [OF dist] by auto
  then show ?case
    unfolding collect_pkgs_Cons [OF Cons.prems] using Cons.IH [OF dist, of "Suc i"]
    by (auto split: option.splits)
qed

lemma fold_add_member_frame:
  "desc_path (fold add_member ns desc) = desc_path desc"
  "desc_type (fold add_member ns desc) = desc_type desc"
  "desc_name (fold add_member ns desc) = desc_name desc"
  "desc_metadata (fold add_member ns desc) = desc_metadata desc"
  by (induction ns arbitrary: desc) (simp_all add: add_member_frame)

lemma fold_add_member_dom:
  "dom (desc_dependencies (fold add_member ns desc) cat) =
     (if cat = ''build'' \<or> cat = ''run'' then dom (desc_dependencies desc cat) \<union> set ns
      else dom (desc_dependencies desc cat))"
proof (induction ns arbitrary: desc)
  case Nil
  show ?case by simp
next
  case (Cons n ns)
  show ?case
    by (auto simp: Cons.IH add_member_dependencies dom_set_add DependencyDescriptor_def)
qed

lemma fold_add_member_other:
  "cat \<noteq> ''build'' \<Longrightarrow> cat \<noteq> ''run'' \<Longrightarrow>
   desc_dependencies (fold add_member ns desc) cat = desc_dependencies desc cat"
  by (induction ns arbitrary: desc) (simp_all add: add_member_dependencies)

lemma add_group_depends_evaluated:
  assumes "\<forall>g \<in> set gs. group_evaluated_condition g \<noteq> None"
  shows "add_group_depends gs packages desc =
     (Returned,
      fold add_member
        (concat (map (\<lambda>g. extract_group_members g packages)
                  (filter (\<lambda>g. group_evaluated_condition g = Some True) gs))) desc)"
  using assms
proof (induction gs arbitrary: desc)
  case Nil
  show ?case by simp
next
  case (Cons g gs)
  then obtain c where c: "group_evaluated_condition g = Some c" by auto
  from Cons.prems have rest: "\<forall>g \<in> set gs. group_evaluated_condition g \<noteq> None" by simp
  show ?case
    using c Cons.IH [OF rest] by (cases c) simp_all
qed

lemma resolve_groups_evaluated:
  assumes "distinct (map (\<lambda>item. snd (snd item)) items)"
    and "\<forall>item \<in> set items. snd (snd item) < length descs \<and>
           (\<forall>g \<in> set (group_depends (fst (snd item))). group_evaluated_condition g \<noteq> None)"
  shows "fst (resolve_groups items packages descs) = Returned \<and>
         (\<forall>p pkg i. (p, pkg, i) \<in> set items \<longrightarrow>
            snd (resolve_groups items packages descs) ! i =
              fold add_member (resolved_members pkg packages) (descs ! i)) \<and>
         (\<forall>j. j \<notin> (\<lambda>item. snd (snd item)) ` set items \<longrightarrow>
            snd (resolve_groups items packages descs) ! j = descs ! j)"
  using assms
proof (induction items arbitrary: descs)
  case Nil
  show ?case by simp
next
  case (Cons item items)
  obtain p0 pkg0 i0 where item: "item = (p0, pkg0, i0)" by (cases item) auto
  define d where "d = fold add_member (resolved_members pkg0 packages) (descs ! i0)"
  have ev: "\<forall>g \<in> set (group_depends pkg0). group_evaluated_condition g \<noteq> None"
    using Cons.prems(2) item by simp
  have a: "add_group_depends (group_depends pkg0) packages (descs ! i0) = (Returned, d)"
    using add_group_depends_evaluated [OF ev] by (simp add: d_def resolved_members_def)
  have step: "resolve_groups (item # items) packages descs =
      resolve_groups items packages (descs[i0 := d])"
    by (simp add: item a)
  have i0: "i0 < length descs" using Cons.prems(2) item by simp
  have dist: "distinct (map (\<lambda>item. snd (snd item)) items)" using Cons.prems(1) by simp
  have notin: "i0 \<notin> (\<lambda>item. snd (snd item)) ` set items" using Cons.prems(1) item by simp
  have pre: "\<forall>item \<in> set items. snd (snd item) < length (descs[i0 := d]) \<and>
           (\<forall>g \<in> set (group_depends (fst (snd item))). group_evaluated_condition g \<noteq> None)"
    using Cons.prems(2) by simp
  note IH = Cons.IH [OF dist pre]
  have 1: "fst (resolve_groups (item # items) packages descs) = Returned"
    using IH by (simp add: step)
  have 2: "snd (resolve_groups (item # items) packages descs) ! i =
              fold add_member (resolved_members pkg packages) (descs ! i)"
    if m: "(p, pkg, i) \<in> set (item # items)" for p pkg i
  proof (cases "(p, pkg, i) = item")
    case True
    then have "i = i0" "pkg = pkg0" using item by simp_all
    with IH notin i0 show ?thesis by (simp add: step d_def)
  next
    case False
    with m have m': "(p, pkg, i) \<in> set items" by simp
    then have "i \<noteq> i0" using notin by force
    with IH m' show ?thesis by (simp add: step)
  qed
  have 3: "snd (resolve_groups (item # items) packages descs) ! j = descs ! j"
    if "j \<notin> (\<lambda>item. snd (snd item)) ` set (item # items)" for j
  proof -
    from that have "j \<noteq> i0" "j \<notin> (\<lambda>item. snd (snd item)) ` set items"
      using item by simp_all
    with IH show ?thesis by (simp add: step)
  qed
  from 1 2 3 show ?case by blast
qed

lemma identify_populates_state:
  assumes "cache_ok w s"
    and "desc_type desc = None \<or> desc_type desc = Some ''ros''"
    and "\<not> path_exists w (desc_path desc) ''CATKIN_IGNORE''"
    and "\<not> path_exists w (desc_path desc) ''AMENT_IGNORE''"
    and "load w (desc_path desc) = Inr (Some pkg, Some bt)"
    and "bt \<noteq> []"
    and "bt = ''ament_python'' \<longrightarrow> path_is_file w (desc_path desc) ''setup.py''"
  shows "snd (snd (identify w desc s)) = snd (get_package_with_build_type w (desc_path desc) s)"
proof -
  obtain r s1 where l: "get_package_with_build_type w (desc_path desc) s = (r, s1)"
    by (cases "get_package_with_build_type w (desc_path desc) s")
  with lookup_result [OF assms(1), of "desc_path desc"] assms(5)
  have r: "r = Inr (Some pkg, Some bt)" by simp
  show ?thesis
    using assms(2-4,6,7) l r by (auto simp: identify_def split: prod.splits)
qed

lemma resolved_members_set:
  "set (resolved_members pkg packages) =
     {pkg_name q | q g. q \<in> set packages \<and> g \<in> set (group_depends pkg) \<and>
        group_evaluated_condition g = Some True \<and> is_member_of g q}"
  by (auto simp: resolved_members_def extract_group_members_def)

lemma batch_packages_set:
  assumes "distinct (map desc_path descs)"
  shows "set (batch_packages s descs) =
     {q. \<exists>j bt. j < length descs \<and> cached_packages s (desc_path (descs ! j)) = Some (Some q, bt)}"
  unfolding batch_packages_def set_map collect_pkgs_set [OF assms]
  by (auto simp: image_iff) force

lemma augment_packages_evaluated:
  assumes "cache_ok w s"
    and "distinct (map desc_path descs)"
  shows "fst (augment_packages descs s) = Returned"
    and "i < length descs \<Longrightarrow> cached_packages s (desc_path (descs ! i)) = Some (Some pkg, bt) \<Longrightarrow>
         fst (snd (augment_packages descs s)) ! i =
           fold add_member (resolved_members pkg (batch_packages s descs)) (descs ! i)"
proof -
  define items where "items = collect_pkgs (cached_packages s) descs 0 []"
  have set_items: "set items =
     {(desc_path (descs ! j), pkg, j) | j pkg bt.
        j < length descs \<and> cached_packages s (desc_path (descs ! j)) = Some (Some pkg, bt)}"
    using collect_pkgs_set [OF assms(2), of "cached_packages s" 0] by (simp add: items_def)
  have dist: "distinct (map (\<lambda>item. snd (snd item)) items)"
    unfolding items_def by (rule collect_pkgs_indices [OF assms(2)])
  have pre: "\<forall>item \<in> set items. snd (snd item) < length descs \<and>
           (\<forall>g \<in> set (group_depends (fst (snd item))). group_evaluated_condition g \<noteq> None)"
  proof
    fix item assume "item \<in> set items"
    then obtain j pkg bt where item: "item = (desc_path (descs ! j), pkg, j)"
      and j: "j < length descs"
      and c: "cached_packages s (desc_path (descs ! j)) = Some (Some pkg, bt)"
      unfolding set_items by blast
    from assms(1) c have "load w (desc_path (descs ! j)) = Inr (Some pkg, bt)"
      by (simp add: cache_ok_def)
    from loaded_groups_evaluated [OF this] j
    show "snd (snd item) < length descs \<and>
           (\<forall>g \<in> set (group_depends (fst (snd item))). group_evaluated_condition g \<noteq> None)"
      by (simp add: item)
  qed
  note R = resolve_groups_evaluated [OF dist pre, of "batch_packages s descs"]
  have aug: "augment_packages descs s =
      (fst (resolve_groups items (batch_packages s descs) descs),
       snd (resolve_groups items (batch_packages s descs) descs), s)"
    by (simp add: augment_packages_def batch_packages_def items_def Let_def split: prod.splits)
  show "fst (augment_packages descs s) = Returned"
    using R by (simp add: aug)
  show "fst (snd (augment_packages descs s)) ! i =
           fold add_member (resolved_members pkg (batch_packages s descs)) (descs ! i)"
    if "i < length descs" "cached_packages s (desc_path (descs ! i)) = Some (Some pkg, bt)"
  proof -
    from that have "(desc_path (descs ! i), pkg, i) \<in> set items"
      unfolding set_items by blast
    with R show ?thesis by (simp add: aug)
  qed
qed

section \<open>The scan of the workspace, evaluated\<close>

lemma identified_a_ok: "cache_ok workspace (snd identified_a)"
  unfolding identified_a_def
  using identify_cache_ok [OF cache_ok_initial, of workspace "new_descriptor ''/ws/a''"] by simp

lemma identified_b_ok: "cache_ok workspace (snd identified_b)"
  unfolding identified_b_def
  using identify_cache_ok [OF identified_a_ok, of "new_descriptor ''/ws/b''"] by simp

lemma identified_a_descriptor:
  "fst identified_a =
     snd (populate (evaluate_conditions workspace manifest_a) ''ament_cmake''
            (new_descriptor ''/ws/a''))"
  unfolding identified_a_def
  using identify_populates(2) [of workspace initial_state "new_descriptor ''/ws/a''"
        "evaluate_conditions workspace manifest_a" "''ament_cmake''"]
  by (simp add: cache_ok_initial new_descriptor_simps load_workspace_a path_exists_def
      workspace_simps)

lemma identified_a_cache:
  "cached_packages (snd identified_a) =
     [''/ws/a'' \<mapsto> (Some (evaluate_conditions workspace manifest_a), Some ''ament_cmake'')]"
proof -
  have "snd identified_a = snd (get_package_with_build_type workspace ''/ws/a'' initial_state)"
    unfolding identified_a_def
    using identify_populates_state [of workspace initial_state "new_descriptor ''/ws/a''"
        "evaluate_conditions workspace manifest_a" "''ament_cmake''"]
    by (simp add: cache_ok_initial new_descriptor_simps load_workspace_a path_exists_def
        workspace_simps)
  then show ?thesis
    using lookup_miss_cache [of initial_state "''/ws/a''" workspace]
    by (simp add: load_workspace_a) (simp add: initial_state_def)
qed

lemma identified_b_descriptor:
  "fst identified_b =
     snd (populate (evaluate_conditions workspace manifest_b) ''ament_python''
            (new_descriptor ''/ws/b''))"
  unfolding identified_b_def
  using identify_populates(2) [of workspace "snd identified_a" "new_descriptor ''/ws/b''"
        "evaluate_conditions workspace manifest_b" "''ament_python''"]
  by (simp add: identified_a_ok new_descriptor_simps load_workspace_b path_exists_def
      path_is_file_def workspace_simps)

lemma identified_b_cache:
  "cached_packages (snd identified_b) =
     [''/ws/a'' \<mapsto> (Some (evaluate_conditions workspace manifest_a), Some ''ament_cmake''),
      ''/ws/b'' \<mapsto> (Some (evaluate_conditions workspace manifest_b), Some ''ament_python'')]"
proof -
  have "snd identified_b =
      snd (get_package_with_build_type workspace ''/ws/b'' (snd identified_a))"
    unfolding identified_b_def
    using identify_populates_state [of workspace "snd identified_a" "new_descriptor ''/ws/b''"
        "evaluate_conditions workspace manifest_b" "''ament_python''"]
    by (simp add: identified_a_ok new_descriptor_simps load_workspace_b path_exists_def
        path_is_file_def workspace_simps)
  then show ?thesis
    using lookup_miss_cache [of "snd identified_a" "''/ws/b''" workspace]
    by (simp add: load_workspace_b identified_a_cache)
qed

lemma identified_paths:
  "desc_path (fst identified_a) = ''/ws/a''"
  "desc_path (fst identified_b) = ''/ws/b''"
  by (simp_all add: identified_a_descriptor identified_b_descriptor populate_frame
      new_descriptor_simps)

lemma identified_a_dependencies:
  "dom (desc_dependencies (fst identified_a) ''build'') = {''foo''}"
  "dom (desc_dependencies (fst identified_a) ''run'') = {}"
proof -
  have ev: "\<And>cat. \<forall>d \<in> set (category_depends (evaluate_conditions workspace manifest_a) cat).
      dep_evaluated_condition d \<noteq> None"
    using loaded_dependencies_evaluated [OF load_workspace_a] .
  have "\<And>cat. dom (desc_dependencies (fst identified_a) cat) =
      enabled_names (category_depends (evaluate_conditions workspace manifest_a) cat)"
    unfolding identified_a_descriptor populate_evaluated(2) [OF ev]
    using add_depends_evaluated [OF ev] by (simp add: new_descriptor_simps)
  then show "dom (desc_dependencies (fst identified_a) ''build'') = {''foo''}"
    "dom (desc_dependencies (fst identified_a) ''run'') = {}"
    by (simp_all add: category_depends_def evaluated_manifest_a enabled_names_simps depend_def)
qed

lemma evaluated_groups:
  "group_depends (evaluate_conditions workspace manifest_a) =
     [drivers\<lparr>group_evaluated_condition := Some True\<rparr>]"
  "member_of_groups (evaluate_conditions workspace manifest_a) = []"
  "member_of_groups (evaluate_conditions workspace manifest_b) =
     [drivers\<lparr>group_evaluated_condition := Some True\<rparr>]"
  "pkg_name (evaluate_conditions workspace manifest_a) = ''a''"
  "pkg_name (evaluate_conditions workspace manifest_b) = ''b''"
  by (simp_all add: evaluate_conditions_def evaluate_group_def manifest_a_def manifest_b_def
      drivers_def workspace_simps)

lemma batch_both:
  "batch_packages (snd identified_b) [fst identified_a, fst identified_b] =
     [evaluate_conditions workspace manifest_a, evaluate_conditions workspace manifest_b]"
  by (simp add: batch_packages_def identified_paths identified_b_cache)

lemma batch_a_alone:
  "batch_packages (snd identified_b) [fst identified_a] =
     [evaluate_conditions workspace manifest_a]"
  by (simp add: batch_packages_def identified_paths identified_b_cache)

lemma members_both:
  "resolved_members (evaluate_conditions workspace manifest_a)
     [evaluate_conditions workspace manifest_a, evaluate_conditions workspace manifest_b] = [''b'']"
  by (simp add: resolved_members_def extract_group_members_def is_member_of_def evaluated_groups
      drivers_def)

lemma members_a_alone:
  "resolved_members (evaluate_conditions workspace manifest_a)
     [evaluate_conditions workspace manifest_a] = []"
  by (simp add: resolved_members_def extract_group_members_def is_member_of_def evaluated_groups
      drivers_def)

lemma twin_a_simps:
  "desc_path twin_a = ''/ws/a''"
  "desc_dependencies twin_a = (\<lambda>cat. Map.empty)"
  by (simp_all add: twin_a_def named_descriptor_def new_descriptor_def)

lemma batch_with_twin:
  "collect_pkgs (cached_packages (snd identified_b)) [fst identified_a, twin_a, fst identified_b] 0 [] =
     [(''/ws/a'', evaluate_conditions workspace manifest_a, 1),
      (''/ws/b'', evaluate_conditions workspace manifest_b, 2)]"
  by (simp add: identified_paths twin_a_simps identified_b_cache)

lemma group_depends_b: "group_depends (evaluate_conditions workspace manifest_b) = []"
  by (simp add: evaluate_conditions_def manifest_b_def)

lemma augment_with_twin:
  "fst (snd (augment_packages [fst identified_a, twin_a, fst identified_b] (snd identified_b))) =
     [fst identified_a, add_member ''b'' twin_a, fst identified_b]"
  unfolding augment_packages_def Let_def batch_with_twin
  by (simp add: evaluated_groups group_depends_b extract_group_members_def is_member_of_def
      drivers_def)

section \<open>Claims about identify\<close>

text \<open>
  Claim C1, as the code has it. Routing is reached only past the checks of
  \<^verbatim>\<open>identify\<close>: the descriptor's type is unset or \<^verbatim>\<open>ros\<close>, the directory has no
  ignore marker, the manifest parses to a package with a non-empty build type, and for
  \<^verbatim>\<open>ament_python\<close> the file \<^verbatim>\<open>setup.py\<close> is there. Then \<^verbatim>\<open>identify\<close> returns
  normally, and each dependency set receives exactly the names of the dependencies of
  its category whose evaluated condition is true: build from build-depends and
  buildtool-depends, run from build-export-depends, buildtool-export-depends and
  exec-depends, test from test-depends. A dependency whose evaluated condition is
  false adds nothing, and no other category changes.
\<close>

theorem identify_routes_dependencies:
  assumes "cache_ok w s"
    and "desc_type desc = None \<or> desc_type desc = Some ''ros''"
    and "\<not> path_exists w (desc_path desc) ''CATKIN_IGNORE''"
    and "\<not> path_exists w (desc_path desc) ''AMENT_IGNORE''"
    and "load w (desc_path desc) = Inr (Some pkg, Some bt)"
    and "bt \<noteq> []"
    and "bt = ''ament_python'' \<longrightarrow> path_is_file w (desc_path desc) ''setup.py''"
  shows "fst (identify w desc s) = Returned \<and>
         dom (desc_dependencies (fst (snd (identify w desc s))) ''build'') =
           dom (desc_dependencies desc ''build'') \<union>
           enabled_names (build_depends pkg @ buildtool_depends pkg) \<and>
         dom (desc_dependencies (fst (snd (identify w desc s))) ''run'') =
           dom (desc_dependencies desc ''run'') \<union>
           enabled_names (build_export_depends pkg @ buildtool_export_depends pkg @ exec_depends pkg) \<and>
         dom (desc_dependencies (fst (snd (identify w desc s))) ''test'') =
           dom (desc_dependencies desc ''test'') \<union> enabled_names (test_depends pkg) \<and>
         (\<forall>cat. cat \<noteq> ''build'' \<and> cat \<noteq> ''run'' \<and> cat \<noteq> ''test'' \<longrightarrow>
            desc_dependencies (fst (snd (identify w desc s))) cat = desc_dependencies desc cat)"
proof -
  have ev: "\<And>cat. \<forall>d \<in> set (category_depends pkg cat). dep_evaluated_condition d \<noteq> None"
    using loaded_dependencies_evaluated [OF assms(5)] .
  have r: "fst (identify w desc s) = Returned"
    using identify_populates(1) [OF assms] populate_evaluated(1) [OF ev] by simp
  have d: "\<And>cat. desc_dependencies (fst (snd (identify w desc s))) cat =
      snd (add_depends (category_depends pkg cat) (desc_dependencies desc cat))"
    using identify_populates(2) [OF assms] populate_evaluated(2) [OF ev] by simp
  have dm: "\<And>cat. dom (desc_dependencies (fst (snd (identify w desc s))) cat) =
      dom (desc_dependencies desc cat) \<union> enabled_names (category_depends pkg cat)"
    using add_depends_evaluated [OF ev] by (simp add: d)
  have o: "\<forall>cat. cat \<noteq> ''build'' \<and> cat \<noteq> ''run'' \<and> cat \<noteq> ''test'' \<longrightarrow>
            desc_dependencies (fst (snd (identify w desc s))) cat = desc_dependencies desc cat"
    by (simp add: d category_depends_def)
  show ?thesis
    using r dm [of "''build''"] dm [of "''run''"] dm [of "''test''"] o
    by (simp add: category_depends_def)
qed

text \<open>
  Package \<open>a\<close> of the workspace: \<open>foo\<close> (condition true) is routed to the build set,
  \<open>bar\<close> (condition false) to none.
\<close>

theorem identify_routes_dependencies_witness:
  "cache_ok workspace initial_state \<and>
   desc_type (new_descriptor ''/ws/a'') = None \<and>
   \<not> path_exists workspace (desc_path (new_descriptor ''/ws/a'')) ''CATKIN_IGNORE'' \<and>
   \<not> path_exists workspace (desc_path (new_descriptor ''/ws/a'')) ''AMENT_IGNORE'' \<and>
   load workspace (desc_path (new_descriptor ''/ws/a'')) =
     Inr (Some (evaluate_conditions workspace manifest_a), Some ''ament_cmake'') \<and>
   fst (identify workspace (new_descriptor ''/ws/a'') initial_state) = Returned \<and>
   dom (desc_dependencies (fst (snd (identify workspace (new_descriptor ''/ws/a'') initial_state)))
          ''build'') = {''foo''} \<and>
   dom (desc_dependencies (fst (snd (identify workspace (new_descriptor ''/ws/a'') initial_state)))
          ''run'') = {} \<and>
   dom (desc_dependencies (fst (snd (identify workspace (new_descriptor ''/ws/a'') initial_state)))
          ''test'') = {}"
  using identify_routes_dependencies [of workspace initial_state "new_descriptor ''/ws/a''"
      "evaluate_conditions workspace manifest_a" "''ament_cmake''"]
  by (simp add: cache_ok_initial new_descriptor_simps load_workspace_a path_exists_def
      workspace_simps evaluated_manifest_a enabled_names_simps depend_def)

text \<open>
  Claim C1 as stated, for every descriptor whose path has a manifest with a build type,
  fails in three ways: a descriptor of type \<^verbatim>\<open>cmake\<close> in \<open>/ws/a\<close> receives nothing
  although \<open>foo\<close> is an enabled build dependency; neither does a new descriptor in
  \<open>/ws/ignored\<close>, which holds an ignore marker, nor one in \<open>/ws/c\<close>, an
  \<^verbatim>\<open>ament_python\<close> package without \<^verbatim>\<open>setup.py\<close>, although \<open>pytest\<close> is an enabled
  test dependency of both.
\<close>

theorem identify_routes_dependencies_counterexample:
  "load workspace (desc_path (cmake_descriptor ''/ws/a'')) =
     Inr (Some (evaluate_conditions workspace manifest_a), Some ''ament_cmake'') \<and>
   ''foo'' \<in> enabled_names (build_depends (evaluate_conditions workspace manifest_a) @
                              buildtool_depends (evaluate_conditions workspace manifest_a)) \<and>
   ''foo'' \<notin> dom (desc_dependencies
      (fst (snd (identify workspace (cmake_descriptor ''/ws/a'') initial_state))) ''build'') \<and>
   load workspace (desc_path (new_descriptor ''/ws/ignored'')) =
     Inr (Some (evaluate_conditions workspace manifest_b), Some ''ament_python'') \<and>
   ''pytest'' \<in> enabled_names (test_depends (evaluate_conditions workspace manifest_b)) \<and>
   ''pytest'' \<notin> dom (desc_dependencies
      (fst (snd (identify workspace (new_descriptor ''/ws/ignored'') initial_state))) ''test'') \<and>
   load workspace (desc_path (new_descriptor ''/ws/c'')) =
     Inr (Some (evaluate_conditions workspace manifest_b), Some ''ament_python'') \<and>
   ''pytest'' \<notin> dom (desc_dependencies
      (fst (snd (identify workspace (new_descriptor ''/ws/c'') initial_state))) ''test'')"
proof -
  have 1: "fst (snd (identify workspace (cmake_descriptor ''/ws/a'') initial_state)) =
      cmake_descriptor ''/ws/a''"
    by (simp add: identify_def cmake_descriptor_simps)
  have 2: "fst (snd (identify workspace (new_descriptor ''/ws/ignored'') initial_state)) =
      new_descriptor ''/ws/ignored''"
    by (simp add: identify_def new_descriptor_simps path_exists_def workspace_simps)
  have 3: "fst (snd (identify workspace (new_descriptor ''/ws/c'') initial_state)) =
      new_descriptor ''/ws/c''"
    by (simp add: identify_def new_descriptor_simps path_exists_def path_is_file_def
        workspace_simps get_package_with_build_type_def get_package_def get_build_type_def
        initial_state_def emit_def manifest_b_def evaluate_conditions_def)
  show ?thesis
    by (simp add: 1 2 3 cmake_descriptor_simps new_descriptor_simps load_workspace_a
        load_workspace_b evaluated_manifest_a evaluated_manifest_b enabled_names_simps depend_def)
qed

text \<open>
  Claim C4. For a descriptor whose directory has no manifest, no legacy manifest and no
  ignore marker, and whose type is unset or \<^verbatim>\<open>ros\<close>, \<^verbatim>\<open>identify\<close> returns normally
  and the descriptor is the one it was given: type, name, metadata and all dependency
  sets are as before.
\<close>

theorem identify_no_manifest:
  assumes "cache_ok w s"
    and "\<not> package_exists_at w (desc_path desc)"
    and "\<not> path_exists w (desc_path desc) ''manifest.xml''"
    and "\<not> path_exists w (desc_path desc) ''CATKIN_IGNORE''"
    and "\<not> path_exists w (desc_path desc) ''AMENT_IGNORE''"
    and "desc_type desc = None \<or> desc_type desc = Some ''ros''"
  shows "fst (identify w desc s) = Returned \<and> fst (snd (identify w desc s)) = desc"
proof -
  obtain r s1 where l: "get_package_with_build_type w (desc_path desc) s = (r, s1)"
    by (cases "get_package_with_build_type w (desc_path desc) s")
  from assms(2) have "load w (desc_path desc) = Inr (None, None)" by (simp add: load_eq)
  with lookup_result [OF assms(1), of "desc_path desc"] l
  have r: "r = Inr (None, None)" by simp
  show ?thesis
    using assms(3-6) l r by (auto simp: identify_def)
qed

text \<open>The directory \<open>/ws/docs\<close> of the workspace, at the start of the scan.\<close>

theorem identify_no_manifest_witness:
  "cache_ok workspace initial_state \<and>
   \<not> package_exists_at workspace (desc_path (new_descriptor ''/ws/docs'')) \<and>
   \<not> path_exists workspace (desc_path (new_descriptor ''/ws/docs'')) ''manifest.xml'' \<and>
   \<not> path_exists workspace (desc_path (new_descriptor ''/ws/docs'')) ''CATKIN_IGNORE'' \<and>
   \<not> path_exists workspace (desc_path (new_descriptor ''/ws/docs'')) ''AMENT_IGNORE'' \<and>
   desc_type (new_descriptor ''/ws/docs'') = None \<and>
   fst (identify workspace (new_descriptor ''/ws/docs'') initial_state) = Returned \<and>
   fst (snd (identify workspace (new_descriptor ''/ws/docs'') initial_state)) =
     new_descriptor ''/ws/docs''"
  using identify_no_manifest [of workspace initial_state "new_descriptor ''/ws/docs''"]
  by (simp add: cache_ok_initial workspace_simps new_descriptor_def path_exists_def)

text \<open>
  Claim C5, as the code has it. The check of the descriptor's type comes first: a
  descriptor already identified with another type is returned untouched, markers or
  not. For a descriptor whose type is unset or \<^verbatim>\<open>ros\<close> and whose directory holds
  \<^verbatim>\<open>CATKIN_IGNORE\<close> or \<^verbatim>\<open>AMENT_IGNORE\<close>, \<^verbatim>\<open>identify\<close> raises
  \<^verbatim>\<open>IgnoreLocationException\<close> and leaves the descriptor and the module state as they
  were.
\<close>

theorem identify_ignore_marker:
  assumes "desc_type desc = None \<or> desc_type desc = Some ''ros''"
    and "path_exists w (desc_path desc) ''CATKIN_IGNORE'' \<or>
         path_exists w (desc_path desc) ''AMENT_IGNORE''"
  shows "identify w desc s = (Raised IgnoreLocationException, desc, s)"
  using assms by (auto simp: identify_def)

theorem identify_ignore_marker_witness:
  "desc_type (new_descriptor ''/ws/ignored'') = None \<and>
   path_exists workspace (desc_path (new_descriptor ''/ws/ignored'')) ''CATKIN_IGNORE'' \<and>
   identify workspace (new_descriptor ''/ws/ignored'') initial_state =
     (Raised IgnoreLocationException, new_descriptor ''/ws/ignored'', initial_state)"
  using identify_ignore_marker [of "new_descriptor ''/ws/ignored''" workspace initial_state]
  by (simp add: workspace_simps new_descriptor_def path_exists_def)

text \<open>
  Claim C5 as stated, for every descriptor, fails: in \<open>/ws/ignored\<close>, which holds
  \<^verbatim>\<open>CATKIN_IGNORE\<close>, a descriptor of type \<^verbatim>\<open>cmake\<close> makes \<^verbatim>\<open>identify\<close> return
  normally.
\<close>

theorem identify_ignore_marker_counterexample:
  "path_exists workspace (desc_path (cmake_descriptor ''/ws/ignored'')) ''CATKIN_IGNORE'' \<and>
   identify workspace (cmake_descriptor ''/ws/ignored'') initial_state =
     (Returned, cmake_descriptor ''/ws/ignored'', initial_state)"
  by (simp add: identify_def workspace_simps cmake_descriptor_def new_descriptor_def path_exists_def)

text \<open>
  Claim C6, as the code has it. For a descriptor whose type is unset or \<^verbatim>\<open>ros\<close>, in a
  directory without ignore marker whose manifest classifies to \<^verbatim>\<open>ament_python\<close>: if
  \<^verbatim>\<open>setup.py\<close> is not a file there, \<^verbatim>\<open>identify\<close> hands the logger one error
  message, built from the path and the build type, raises
  \<^verbatim>\<open>IgnoreLocationException\<close>, and leaves the descriptor, its type included, as it was.
\<close>

theorem identify_missing_setup_py:
  assumes "cache_ok w s"
    and "desc_type desc = None \<or> desc_type desc = Some ''ros''"
    and "\<not> path_exists w (desc_path desc) ''CATKIN_IGNORE''"
    and "\<not> path_exists w (desc_path desc) ''AMENT_IGNORE''"
    and "load w (desc_path desc) = Inr (Some pkg, Some ''ament_python'')"
    and "\<not> path_is_file w (desc_path desc) ''setup.py''"
  shows "fst (identify w desc s) = Raised IgnoreLocationException \<and>
         fst (snd (identify w desc s)) = desc \<and>
         snd (snd (identify w desc s)) =
           emit (Logged ERROR (no_setup_py_message (desc_path desc) ''ament_python''))
             (snd (get_package_with_build_type w (desc_path desc) s))"
proof -
  obtain r s1 where l: "get_package_with_build_type w (desc_path desc) s = (r, s1)"
    by (cases "get_package_with_build_type w (desc_path desc) s")
  with lookup_result [OF assms(1), of "desc_path desc"] assms(5)
  have r: "r = Inr (Some pkg, Some ''ament_python'')" by simp
  show ?thesis
    using assms(2-4,6) l r by (auto simp: identify_def)
qed

text \<open>The directory \<open>/ws/c\<close> of the workspace, with the trace the call leaves.\<close>

theorem identify_missing_setup_py_witness:
  "cache_ok workspace initial_state \<and>
   desc_type (new_descriptor ''/ws/c'') = None \<and>
   \<not> path_exists workspace (desc_path (new_descriptor ''/ws/c'')) ''CATKIN_IGNORE'' \<and>
   \<not> path_exists workspace (desc_path (new_descriptor ''/ws/c'')) ''AMENT_IGNORE'' \<and>
   load workspace (desc_path (new_descriptor ''/ws/c'')) =
     Inr (Some (evaluate_conditions workspace manifest_b), Some ''ament_python'') \<and>
   \<not> path_is_file workspace (desc_path (new_descriptor ''/ws/c'')) ''setup.py'' \<and>
   fst (identify workspace (new_descriptor ''/ws/c'') initial_state) =
     Raised IgnoreLocationException \<and>
   fst (snd (identify workspace (new_descriptor ''/ws/c'') initial_state)) =
     new_descriptor ''/ws/c'' \<and>
   trace (snd (snd (identify workspace (new_descriptor ''/ws/c'') initial_state))) =
     [Called_package_exists_at ''/ws/c'', Called_parse_package ''/ws/c'',
      Called_get_build_type ''b'',
      Logged ERROR (''ROS package '' @ quoted ''/ws/c'' @ '' with build type '' @
        quoted ''ament_python'' @ '' has no '' @ quoted ''setup.py'' @ '' file'')]"
proof -
  have d: "desc_path (new_descriptor ''/ws/c'') = ''/ws/c''" by (simp add: new_descriptor_def)
  have t: "trace (snd (get_package_with_build_type workspace ''/ws/c'' initial_state)) =
     [Called_package_exists_at ''/ws/c'', Called_parse_package ''/ws/c'',
      Called_get_build_type ''b'']"
    by (simp add: get_package_with_build_type_def get_package_def get_build_type_def
        initial_state_def emit_def workspace_simps manifest_b_def evaluate_conditions_def)
  show ?thesis
    using identify_missing_setup_py [of workspace initial_state "new_descriptor ''/ws/c''"
        "evaluate_conditions workspace manifest_b"] t
    by (simp add: cache_ok_initial d load_workspace_b path_exists_def path_is_file_def
        workspace_simps emit_def no_setup_py_message_def)
       (simp add: new_descriptor_def)
qed

text \<open>
  Claim C6 as stated, for every descriptor of such a manifest, fails in two ways: for a
  descriptor of type \<^verbatim>\<open>cmake\<close> in \<open>/ws/c\<close> the call returns normally and nothing is
  logged; in \<open>/ws/ignored\<close> the ignore marker ends the call before the manifest is
  read, and nothing is logged either.
\<close>

theorem identify_missing_setup_py_counterexample:
  "load workspace (desc_path (cmake_descriptor ''/ws/c'')) =
     Inr (Some (evaluate_conditions workspace manifest_b), Some ''ament_python'') \<and>
   \<not> path_exists workspace (desc_path (cmake_descriptor ''/ws/c'')) ''setup.py'' \<and>
   identify workspace (cmake_descriptor ''/ws/c'') initial_state =
     (Returned, cmake_descriptor ''/ws/c'', initial_state) \<and>
   load workspace (desc_path (new_descriptor ''/ws/ignored'')) =
     Inr (Some (evaluate_conditions workspace manifest_b), Some ''ament_python'') \<and>
   \<not> path_exists workspace (desc_path (new_descriptor ''/ws/ignored'')) ''setup.py'' \<and>
   trace (snd (snd (identify workspace (new_descriptor ''/ws/ignored'') initial_state))) = []"
  by (simp add: load_eq identify_def workspace_simps cmake_descriptor_def new_descriptor_def
      path_exists_def manifest_b_def initial_state_def)

text \<open>
  Claim C7. Where a manifest exists and the parser raises \<^verbatim>\<open>InvalidPackage\<close> or
  \<^verbatim>\<open>AssertionError\<close>, \<^verbatim>\<open>_get_package\<close> returns \<open>None\<close>; the lookup yields the
  absent pair, and \<^verbatim>\<open>identify\<close> ends as for a directory without package: it returns
  normally or raises \<^verbatim>\<open>IgnoreLocationException\<close>, no error escapes, and the descriptor
  is as it was.
\<close>

theorem invalid_manifest_is_absent:
  assumes "cache_ok w s"
    and "package_exists_at w (desc_path desc)"
    and "parse_package w (desc_path desc) = RaisesInvalidPackage \<or>
         parse_package w (desc_path desc) = RaisesAssertionError"
  shows "fst (get_package w (desc_path desc) s0) = None \<and>
         fst (get_package_with_build_type w (desc_path desc) s) = Inr (None, None) \<and>
         (fst (identify w desc s) = Returned \<or>
          fst (identify w desc s) = Raised IgnoreLocationException) \<and>
         fst (snd (identify w desc s)) = desc"
proof -
  obtain r s1 where l: "get_package_with_build_type w (desc_path desc) s = (r, s1)"
    by (cases "get_package_with_build_type w (desc_path desc) s")
  from assms(2,3) have "load w (desc_path desc) = Inr (None, None)"
    by (auto simp: load_eq)
  with lookup_result [OF assms(1), of "desc_path desc"] l
  have r: "r = Inr (None, None)" by simp
  have g: "fst (get_package w (desc_path desc) s0) = None"
    using assms(2,3) by (auto simp: get_package_def Let_def)
  show ?thesis
    using g l r by (auto simp: identify_def)
qed

text \<open>The directory \<open>/ws/broken\<close> of the workspace.\<close>

theorem invalid_manifest_is_absent_witness:
  "cache_ok workspace initial_state \<and>
   package_exists_at workspace (desc_path (new_descriptor ''/ws/broken'')) \<and>
   parse_package workspace (desc_path (new_descriptor ''/ws/broken'')) = RaisesInvalidPackage \<and>
   fst (get_package workspace (desc_path (new_descriptor ''/ws/broken'')) initial_state) = None \<and>
   fst (identify workspace (new_descriptor ''/ws/broken'') initial_state) = Returned \<and>
   fst (snd (identify workspace (new_descriptor ''/ws/broken'') initial_state)) =
     new_descriptor ''/ws/broken''"
proof -
  have d: "desc_path (new_descriptor ''/ws/broken'') = ''/ws/broken''"
    by (simp add: new_descriptor_def)
  have "fst (identify workspace (new_descriptor ''/ws/broken'') initial_state) \<noteq>
      Raised IgnoreLocationException"
    by (simp add: identify_def d path_exists_def workspace_simps get_package_with_build_type_def
        get_package_def initial_state_def emit_def)
  with invalid_manifest_is_absent [of workspace initial_state "new_descriptor ''/ws/broken''"
        initial_state]
  show ?thesis
    by (simp add: cache_ok_initial d workspace_simps)
qed

text \<open>
  Claim C8. A dependency that \<^verbatim>\<open>identify\<close> adds to a set of the descriptor is a
  dependency of the manifest in that category, with a true evaluated condition, and its
  metadata are those of \<^verbatim>\<open>_create_metadata\<close>: no key other than the five bounds,
  and each bound key present exactly when the attribute of the manifest dependency is
  non-null, with its value.
\<close>

theorem identify_version_metadata:
  assumes "cache_ok w s"
    and "desc_dependencies (fst (snd (identify w desc s))) cat n = Some md"
    and "desc_dependencies desc cat n = None"
  shows "\<exists>pkg bt. load w (desc_path desc) = Inr (Some pkg, bt) \<and>
           (\<exists>d \<in> set (category_depends pkg cat).
              dep_name d = n \<and> dep_evaluated_condition d = Some True \<and>
              md = create_metadata d \<and>
              dom md \<subseteq> set attributes \<and>
              md ''version_lte'' = version_lte d \<and>
              md ''version_lt'' = version_lt d \<and>
              md ''version_gte'' = version_gte d \<and>
              md ''version_gt'' = version_gt d \<and>
              md ''version_eq'' = version_eq d)"
proof -
  from assms(2,3) have ne: "fst (snd (identify w desc s)) \<noteq> desc" by auto
  with identify_shape [of w desc s] obtain pkg bt where
    l: "fst (get_package_with_build_type w (desc_path desc) s) = Inr (Some pkg, Some bt)"
    and p: "fst (snd (identify w desc s)) = snd (populate pkg bt desc)" by blast
  from l lookup_result [OF assms(1), of "desc_path desc"]
  have ld: "load w (desc_path desc) = Inr (Some pkg, Some bt)" by simp
  from populate_category [of pkg bt desc cat] assms(2,3) p
  have "snd (add_depends (category_depends pkg cat) (desc_dependencies desc cat)) n = Some md"
    by auto
  from add_depends_new [OF this assms(3)] obtain d where
    d: "d \<in> set (category_depends pkg cat)" "dep_name d = n"
       "dep_evaluated_condition d = Some True" "md = create_metadata d" by blast
  show ?thesis
    using ld d create_metadata_keys [of d] by blast
qed

text \<open>
  Package \<open>a\<close> of the workspace declares \<open>foo\<close> with the one bound \<open>\<ge> 1.2\<close>: the
  metadata of the dependency added hold \<^verbatim>\<open>version_gte\<close> and nothing else.
\<close>

theorem identify_version_metadata_witness:
  "cache_ok workspace initial_state \<and>
   desc_dependencies (new_descriptor ''/ws/a'') ''build'' ''foo'' = None \<and>
   desc_dependencies (fst (snd (identify workspace (new_descriptor ''/ws/a'') initial_state)))
     ''build'' ''foo'' = Some [''version_gte'' \<mapsto> ''1.2''] \<and>
   (\<exists>pkg bt. load workspace ''/ws/a'' = Inr (Some pkg, bt) \<and>
      (\<exists>d \<in> set (category_depends pkg ''build'').
          dep_name d = ''foo'' \<and> dep_evaluated_condition d = Some True \<and>
          [''version_gte'' \<mapsto> ''1.2''] = create_metadata d \<and>
          version_lte d = None \<and> version_lt d = None \<and> version_gte d = Some ''1.2'' \<and>
          version_gt d = None \<and> version_eq d = None))"
  using identify_version_metadata [of workspace initial_state "new_descriptor ''/ws/a''"
      "''build''" "''foo''" "[''version_gte'' \<mapsto> ''1.2'']"]
  by (simp add: cache_ok_initial identify_workspace_a_build new_descriptor_simps) metis

text \<open>
  Claim C9. \<^verbatim>\<open>identify\<close> never overwrites a name that is set; if the name after the
  call differs from the name before, the name was unset and is now the name the manifest
  declares.
\<close>

theorem identify_name_precedence:
  "(desc_name desc \<noteq> None \<longrightarrow> desc_name (fst (snd (identify w desc s))) = desc_name desc) \<and>
   (desc_name (fst (snd (identify w desc s))) \<noteq> desc_name desc \<longrightarrow>
      desc_name desc = None \<and>
      (\<exists>pkg bt. fst (get_package_with_build_type w (desc_path desc) s) = Inr (Some pkg, bt) \<and>
         desc_name (fst (snd (identify w desc s))) = Some (pkg_name pkg)))"
proof -
  from identify_shape [of w desc s]
  show ?thesis
  proof
    assume "fst (snd (identify w desc s)) = desc"
    then show ?thesis by simp
  next
    assume "\<exists>pkg bt. fst (get_package_with_build_type w (desc_path desc) s) = Inr (Some pkg, Some bt) \<and>
      fst (snd (identify w desc s)) = snd (populate pkg bt desc)"
    then obtain pkg bt where
      l: "fst (get_package_with_build_type w (desc_path desc) s) = Inr (Some pkg, Some bt)"
      and p: "fst (snd (identify w desc s)) = snd (populate pkg bt desc)" by blast
    show ?thesis
      using l by (cases "desc_name desc") (auto simp: p populate_frame)
  qed
qed

text \<open>
  In \<open>/ws/a\<close>, whose manifest declares the name \<open>a\<close>: a descriptor named \<open>mine\<close> is
  identified and keeps its name; a descriptor without name takes the name \<open>a\<close>.
\<close>

theorem identify_name_precedence_witness:
  "desc_name (named_descriptor ''/ws/a'' ''mine'') \<noteq> None \<and>
   pkg_name (evaluate_conditions workspace manifest_a) = ''a'' \<and>
   desc_type (fst (snd (identify workspace (named_descriptor ''/ws/a'' ''mine'') initial_state))) =
     Some ''ros.ament_cmake'' \<and>
   desc_name (fst (snd (identify workspace (named_descriptor ''/ws/a'' ''mine'') initial_state))) =
     desc_name (named_descriptor ''/ws/a'' ''mine'') \<and>
   desc_name (fst (snd (identify workspace (new_descriptor ''/ws/a'') initial_state))) \<noteq>
     desc_name (new_descriptor ''/ws/a'') \<and>
   desc_name (new_descriptor ''/ws/a'') = None \<and>
   desc_name (fst (snd (identify workspace (new_descriptor ''/ws/a'') initial_state))) = Some ''a''"
proof -
  have p: "desc_path (named_descriptor ''/ws/a'' ''mine'') = ''/ws/a''"
    "desc_type (named_descriptor ''/ws/a'' ''mine'') = None"
    "desc_name (named_descriptor ''/ws/a'' ''mine'') = Some ''mine''"
    by (simp_all add: named_descriptor_def new_descriptor_def)
  have a: "pkg_name (evaluate_conditions workspace manifest_a) = ''a''"
    by (simp add: evaluate_conditions_def manifest_a_def)
  have t: "desc_type (fst (snd (identify workspace (named_descriptor ''/ws/a'' ''mine'') initial_state))) =
     Some ''ros.ament_cmake''"
    using identify_populates(2) [of workspace initial_state "named_descriptor ''/ws/a'' ''mine''"
        "evaluate_conditions workspace manifest_a" "''ament_cmake''"]
    by (simp add: cache_ok_initial p path_exists_def workspace_simps load_workspace_a
        populate_frame)
  have n: "desc_name (fst (snd (identify workspace (new_descriptor ''/ws/a'') initial_state))) =
     Some ''a''"
    using identify_populates(2) [of workspace initial_state "new_descriptor ''/ws/a''"
        "evaluate_conditions workspace manifest_a" "''ament_cmake''"]
    by (simp add: cache_ok_initial new_descriptor_simps path_exists_def workspace_simps
        load_workspace_a populate_frame a)
  show ?thesis
    using identify_name_precedence [of "named_descriptor ''/ws/a'' ''mine''" workspace initial_state]
      identify_name_precedence [of "new_descriptor ''/ws/a''" workspace initial_state] t n
    by (simp add: p a new_descriptor_simps)
qed

section \<open>Claims about the cache\<close>

text \<open>
  Claim C3 says that a path is parsed and classified at most once, the first lookup
  storing its pair. The lemmas \<open>lookup_stores\<close>, \<open>lookup_hit\<close>, \<open>lookup_twice\<close> and
  \<open>identify_same_path_again\<close> above show this for every lookup that returns. A lookup whose classification meets a
  manifest with more than one build type does not return: the \<^verbatim>\<open>KeyError\<close> raised
  in the handler of \<^verbatim>\<open>_get_build_type\<close> escapes before the pair is stored. In
  \<open>/ws/two\<close>, \<^verbatim>\<open>identify\<close> raises, the cache has no entry for the path afterwards,
  and a second call goes through the parser and the classifier again.
\<close>

theorem two_build_types_parsed_again:
  "parse_package workspace ''/ws/two'' = Parsed manifest_two \<and>
   pkg_get_build_type manifest_two = RaisesMultipleBuildTypes \<and>
   fst (identify workspace (new_descriptor ''/ws/two'') initial_state) =
     Raised (KeyError ''path'') \<and>
   cached_packages (snd (snd (identify workspace (new_descriptor ''/ws/two'') initial_state)))
     ''/ws/two'' = None \<and>
   trace (snd (snd (identify workspace (new_descriptor ''/ws/two'')
            (snd (snd (identify workspace (new_descriptor ''/ws/two'') initial_state)))))) =
     [Called_package_exists_at ''/ws/two'', Called_parse_package ''/ws/two'',
      Called_get_build_type ''two'',
      Called_package_exists_at ''/ws/two'', Called_parse_package ''/ws/two'',
      Called_get_build_type ''two'']"
proof -
  have 1: "identify workspace (new_descriptor ''/ws/two'') initial_state =
     (Raised (KeyError ''path''), new_descriptor ''/ws/two'',
      initial_state\<lparr>trace := [Called_package_exists_at ''/ws/two'',
               Called_parse_package ''/ws/two'', Called_get_build_type ''two'']\<rparr>)"
    by (simp add: identify_workspace_two initial_state_def)
  have 2: "identify workspace (new_descriptor ''/ws/two'')
      (initial_state\<lparr>trace := [Called_package_exists_at ''/ws/two'',
               Called_parse_package ''/ws/two'', Called_get_build_type ''two'']\<rparr>) =
     (Raised (KeyError ''path''), new_descriptor ''/ws/two'',
      initial_state\<lparr>trace := [Called_package_exists_at ''/ws/two'',
               Called_parse_package ''/ws/two'', Called_get_build_type ''two'',
               Called_package_exists_at ''/ws/two'',
               Called_parse_package ''/ws/two'', Called_get_build_type ''two'']\<rparr>)"
    by (simp add: identify_workspace_two initial_state_def)
  show ?thesis
    by (simp add: 1 2 workspace_simps manifest_two_def) (simp add: initial_state_def)
qed

section \<open>Claims about augment_packages and about scans\<close>

text \<open>
  Claim C2, as the code has it. \<^verbatim>\<open>pkgs\<close> holds one descriptor per cached package:
  of several descriptors with the same path, the assignment \<^verbatim>\<open>pkgs[pkg] = desc\<close>
  keeps the last. So the batch is taken with pairwise different paths, in a state whose
  cache entries are what a first lookup yields. For a descriptor of the batch whose path
  has a cached package,
  \<^verbatim>\<open>augment_packages\<close> returns normally, and the build set and the run set of that
  descriptor both receive exactly the resolved member names of the package's group
  dependencies with a true evaluated condition. A resolved member name is the name of a
  package that is cached for a descriptor of the same batch and is a member of such a
  group: a package outside the batch is never a member. If no member resolves, the
  descriptor is as it was.
\<close>

theorem augment_adds_group_members:
  assumes "cache_ok w s"
    and "distinct (map desc_path descs)"
    and "i < length descs"
    and "cached_packages s (desc_path (descs ! i)) = Some (Some pkg, bt)"
  shows "fst (augment_packages descs s) = Returned \<and>
         dom (desc_dependencies (fst (snd (augment_packages descs s)) ! i) ''build'') =
           dom (desc_dependencies (descs ! i) ''build'') \<union>
           set (resolved_members pkg (batch_packages s descs)) \<and>
         dom (desc_dependencies (fst (snd (augment_packages descs s)) ! i) ''run'') =
           dom (desc_dependencies (descs ! i) ''run'') \<union>
           set (resolved_members pkg (batch_packages s descs)) \<and>
         set (resolved_members pkg (batch_packages s descs)) =
           {pkg_name q | q g. q \<in> set (batch_packages s descs) \<and> g \<in> set (group_depends pkg) \<and>
              group_evaluated_condition g = Some True \<and> is_member_of g q} \<and>
         set (batch_packages s descs) =
           {q. \<exists>j bt'. j < length descs \<and>
                 cached_packages s (desc_path (descs ! j)) = Some (Some q, bt')} \<and>
         (resolved_members pkg (batch_packages s descs) = [] \<longrightarrow>
            fst (snd (augment_packages descs s)) ! i = descs ! i)"
proof -
  note A = augment_packages_evaluated [OF assms(1,2)]
  have d: "fst (snd (augment_packages descs s)) ! i =
           fold add_member (resolved_members pkg (batch_packages s descs)) (descs ! i)"
    by (rule A(2) [OF assms(3,4)])
  show ?thesis
    unfolding d
    using A(1) resolved_members_set [of pkg "batch_packages s descs"]
      batch_packages_set [OF assms(2), of s]
    by (simp add: fold_add_member_dom)
qed

text \<open>
  In the workspace, after \<open>/ws/a\<close> and \<open>/ws/b\<close> have been identified: \<open>a\<close> depends on
  the group \<open>drivers\<close> and \<open>b\<close> is a member of it. With both descriptors in the batch,
  \<open>b\<close> joins the build set and the run set of \<open>a\<close>'s descriptor; with \<open>a\<close>'s descriptor
  alone in the batch, that descriptor stays as it was.
\<close>

theorem augment_adds_group_members_witness:
  "cache_ok workspace (snd identified_b) \<and>
   distinct (map desc_path [fst identified_a, fst identified_b]) \<and>
   cached_packages (snd identified_b) (desc_path ([fst identified_a, fst identified_b] ! 0)) =
     Some (Some (evaluate_conditions workspace manifest_a), Some ''ament_cmake'') \<and>
   fst (augment_packages [fst identified_a, fst identified_b] (snd identified_b)) = Returned \<and>
   dom (desc_dependencies
          (fst (snd (augment_packages [fst identified_a, fst identified_b] (snd identified_b))) ! 0)
          ''build'') = {''foo'', ''b''} \<and>
   dom (desc_dependencies
          (fst (snd (augment_packages [fst identified_a, fst identified_b] (snd identified_b))) ! 0)
          ''run'') = {''b''} \<and>
   fst (snd (augment_packages [fst identified_a] (snd identified_b))) ! 0 = fst identified_a"
proof -
  have d2: "distinct (map desc_path [fst identified_a, fst identified_b])"
    by (simp add: identified_paths)
  have d1: "distinct (map desc_path [fst identified_a])" by simp
  have l2: "0 < length [fst identified_a, fst identified_b]" by simp
  have l1: "0 < length [fst identified_a]" by simp
  have c2: "cached_packages (snd identified_b)
      (desc_path ([fst identified_a, fst identified_b] ! 0)) =
      Some (Some (evaluate_conditions workspace manifest_a), Some ''ament_cmake'')"
    by (simp add: identified_b_cache identified_paths)
  have c1: "cached_packages (snd identified_b) (desc_path ([fst identified_a] ! 0)) =
      Some (Some (evaluate_conditions workspace manifest_a), Some ''ament_cmake'')"
    by (simp add: identified_b_cache identified_paths)
  note both = augment_adds_group_members [OF identified_b_ok d2 l2 c2]
  note alone = augment_adds_group_members [OF identified_b_ok d1 l1 c1]
  have r: "fst (augment_packages [fst identified_a, fst identified_b] (snd identified_b)) =
      Returned"
    by (rule both [THEN conjunct1])
  have b: "dom (desc_dependencies
          (fst (snd (augment_packages [fst identified_a, fst identified_b] (snd identified_b))) ! 0)
          ''build'') = {''foo'', ''b''}"
    unfolding both [THEN conjunct2, THEN conjunct1]
    by (simp add: batch_both members_both identified_a_dependencies insert_commute)
  have u: "dom (desc_dependencies
          (fst (snd (augment_packages [fst identified_a, fst identified_b] (snd identified_b))) ! 0)
          ''run'') = {''b''}"
    unfolding both [THEN conjunct2, THEN conjunct2, THEN conjunct1]
    by (simp add: batch_both members_both identified_a_dependencies)
  have "resolved_members (evaluate_conditions workspace manifest_a)
      (batch_packages (snd identified_b) [fst identified_a]) = [] \<longrightarrow>
      fst (snd (augment_packages [fst identified_a] (snd identified_b))) ! 0 =
      [fst identified_a] ! 0"
    by (rule alone [THEN conjunct2, THEN conjunct2, THEN conjunct2, THEN conjunct2,
          THEN conjunct2])
  then have a: "fst (snd (augment_packages [fst identified_a] (snd identified_b))) ! 0 =
      fst identified_a"
    by (simp add: batch_a_alone members_a_alone)
  from identified_b_ok d2 c2 r b u a show ?thesis by blast
qed

text \<open>
  Claim C2 as stated, for every batch, fails: in the batch of \<open>a\<close>'s descriptor, a
  second descriptor for \<open>/ws/a\<close> and \<open>b\<close>'s descriptor, the member \<open>b\<close> resolves for
  \<open>a\<close>'s package, but it is the second descriptor that receives it; \<open>a\<close>'s own
  descriptor, whose path has the cached package, is as it was.
\<close>

theorem augment_adds_group_members_counterexample:
  "cache_ok workspace (snd identified_b) \<and>
   cached_packages (snd identified_b)
     (desc_path ([fst identified_a, twin_a, fst identified_b] ! 0)) =
     Some (Some (evaluate_conditions workspace manifest_a), Some ''ament_cmake'') \<and>
   ''b'' \<in> set (resolved_members (evaluate_conditions workspace manifest_a)
               (batch_packages (snd identified_b) [fst identified_a, twin_a, fst identified_b])) \<and>
   ''b'' \<notin> dom (desc_dependencies
     (fst (snd (augment_packages [fst identified_a, twin_a, fst identified_b]
        (snd identified_b))) ! 0) ''build'') \<and>
   fst (snd (augment_packages [fst identified_a, twin_a, fst identified_b] (snd identified_b))) ! 0 =
     [fst identified_a, twin_a, fst identified_b] ! 0"
  unfolding augment_with_twin batch_packages_def batch_with_twin
  by (simp add: identified_b_ok identified_paths identified_b_cache members_both
      identified_a_dependencies)

text \<open>
  Claim C10. Through any sequence of \<^verbatim>\<open>identify\<close> and \<^verbatim>\<open>augment_packages\<close> calls,
  on any batches and whatever the calls raise, a dependency that a descriptor has in one
  of its sets before the sequence is in that set after it, with the metadata it had;
  and no descriptor is lost.
\<close>

theorem dependency_sets_only_grow:
  assumes "i < length descs"
    and "desc_dependencies (descs ! i) cat n = Some md"
  shows "length (fst (run w calls (descs, s))) = length descs \<and>
         desc_dependencies (fst (run w calls (descs, s)) ! i) cat n = Some md"
proof -
  from run_grows [OF assms(1), of w calls s]
  have "desc_dependencies (descs ! i) cat \<subseteq>\<^sub>m
        desc_dependencies (fst (run w calls (descs, s)) ! i) cat"
    by (simp add: grows_def)
  with assms(2) show ?thesis
    by (auto simp: run_length map_le_def dom_def)
qed

text \<open>
  A descriptor that enters the scan of the workspace with \<open>foo\<close> pinned to version 1.0
  among its build dependencies keeps that entry, although the manifest of \<open>/ws/a\<close>
  declares \<open>foo\<close> with another bound.
\<close>

theorem dependency_sets_only_grow_witness:
  "0 < length [pinned_descriptor, new_descriptor ''/ws/b''] \<and>
   desc_dependencies ([pinned_descriptor, new_descriptor ''/ws/b''] ! 0) ''build'' ''foo'' =
     Some [''version_eq'' \<mapsto> ''1.0''] \<and>
   length (fst (run workspace whole_scan
      ([pinned_descriptor, new_descriptor ''/ws/b''], initial_state))) = 2 \<and>
   desc_dependencies
     (fst (run workspace whole_scan
        ([pinned_descriptor, new_descriptor ''/ws/b''], initial_state)) ! 0) ''build'' ''foo'' =
     Some [''version_eq'' \<mapsto> ''1.0'']"
  using dependency_sets_only_grow [of 0 "[pinned_descriptor, new_descriptor ''/ws/b'']"
      "''build''" "''foo''" "[''version_eq'' \<mapsto> ''1.0'']" workspace whole_scan initial_state]
  by (simp add: pinned_descriptor_def)

end
